theory Spec2Isabelle
  imports Complex_Main "HOL-Library.Word" "HOL-Library.Sublist"
begin

unbundle bit_operations_syntax

section \<open>Data model of the CheckOff screen\<close>

text \<open>
  The screen component of \<^verbatim>\<open>src/app/(tabs)/index.tsx\<close> keeps three pieces of React
  state: the task list, the text of the input field and the active filter. A JavaScript
  string is a sequence of 16-bit UTF-16 code units, so it is modelled as a list of
  16-bit words.
\<close>

type_synonym jsstring = "16 word list"

record TodoItem =
  id_item :: jsstring
  title :: jsstring
  completed :: bool

datatype Filter = F_all | F_active | F_completed

record screen =
  tasks :: "TodoItem list"
  inputValue :: jsstring
  filter_st :: Filter

definition initial :: screen where
  "initial = \<lparr>tasks = [], inputValue = [], filter_st = F_all\<rparr>"

text \<open>String literals of the source are written as ASCII text and turned into code units.\<close>

definition js :: "string \<Rightarrow> jsstring" where
  "js s = map (\<lambda>c. word_of_nat (of_char c)) s"

subsection \<open>Built-ins used by \<^verbatim>\<open>addTask\<close>\<close>

text \<open>
  \<^verbatim>\<open>String.prototype.trim\<close> removes the code units that are WhiteSpace or LineTerminator
  in ECMAScript from both ends: TAB, LF, VT, FF, CR, SP, NBSP, U+1680, U+2000 to U+200A,
  U+2028, U+2029, U+202F, U+205F, U+3000 and U+FEFF (all of them single code units).
\<close>

definition is_trim_space :: "16 word \<Rightarrow> bool" where
  "is_trim_space c =
     (c \<in> set [0x0009, 0x000A, 0x000B, 0x000C, 0x000D, 0x0020, 0x00A0, 0x1680,
                0x2000, 0x2001, 0x2002, 0x2003, 0x2004, 0x2005, 0x2006, 0x2007,
                0x2008, 0x2009, 0x200A, 0x2028, 0x2029, 0x202F, 0x205F, 0x3000, 0xFEFF])"

definition trim :: "jsstring \<Rightarrow> jsstring" where
  "trim s = rev (dropWhile is_trim_space (rev (dropWhile is_trim_space s)))"

text \<open>
  \<^verbatim>\<open>Date.now().toString()\<close>: the clock reading is an integral number of milliseconds
  (of magnitude at most 8.64e15, far below 1e21), so \<^verbatim>\<open>Number.prototype.toString\<close>
  yields its plain decimal digits, with a minus sign for a clock set before 1970.
\<close>

definition digit :: "nat \<Rightarrow> 16 word" where
  "digit d = 0x30 + of_nat d"

fun decimal :: "nat \<Rightarrow> jsstring" where
  "decimal n = (if n < 10 then [digit n] else decimal (n div 10) @ [digit (n mod 10)])"

declare decimal.simps [simp del]

definition Number_toString :: "int \<Rightarrow> jsstring" where
  "Number_toString n = (if n < 0 then 0x2D # decimal (nat (- n)) else decimal (nat n))"

subsection \<open>The mutations\<close>

text \<open>
  Every mutation goes through \<^verbatim>\<open>setTasks\<close> with a functional updater, so it is a
  function of the current state. \<^verbatim>\<open>addTask\<close> reads the input field and the clock;
  the clock reading is the parameter \<open>now\<close>. An empty string is the only falsy string.
\<close>

definition addTask :: "int \<Rightarrow> screen \<Rightarrow> screen" where
  "addTask now st =
     (let trimmedValue = trim (inputValue st) in
      if trimmedValue = [] then st
      else
        let newTask = \<lparr>id_item = Number_toString now, title = trimmedValue, completed = False\<rparr>
        in st\<lparr>tasks := newTask # tasks st, inputValue := []\<rparr>)"

definition toggleTask :: "jsstring \<Rightarrow> screen \<Rightarrow> screen" where
  "toggleTask i st =
     st\<lparr>tasks := map (\<lambda>task. if id_item task = i
                              then task\<lparr>completed := \<not> completed task\<rparr> else task)
                     (tasks st)\<rparr>"

definition deleteTask :: "jsstring \<Rightarrow> screen \<Rightarrow> screen" where
  "deleteTask i st = st\<lparr>tasks := filter (\<lambda>task. id_item task \<noteq> i) (tasks st)\<rparr>"

definition clearCompleted :: "screen \<Rightarrow> screen" where
  "clearCompleted st = st\<lparr>tasks := filter (\<lambda>task. \<not> completed task) (tasks st)\<rparr>"

definition setFilter :: "Filter \<Rightarrow> screen \<Rightarrow> screen" where
  "setFilter f st = st\<lparr>filter_st := f\<rparr>"

definition setInputValue :: "jsstring \<Rightarrow> screen \<Rightarrow> screen" where
  "setInputValue s st = st\<lparr>inputValue := s\<rparr>"

subsection \<open>Derived views\<close>

definition filteredTasks :: "screen \<Rightarrow> TodoItem list" where
  "filteredTasks st =
     (if filter_st st = F_active then filter (\<lambda>task. \<not> completed task) (tasks st)
      else if filter_st st = F_completed then filter (\<lambda>task. completed task) (tasks st)
      else tasks st)"

definition totalCount :: "screen \<Rightarrow> int" where
  "totalCount st = int (length (tasks st))"

definition completedCount :: "screen \<Rightarrow> int" where
  "completedCount st = int (length (filter (\<lambda>task. completed task) (tasks st)))"

definition activeCount :: "screen \<Rightarrow> int" where
  "activeCount st = totalCount st - completedCount st"

subsection \<open>The completion rate, in binary64 arithmetic\<close>

text \<open>
  \<^verbatim>\<open>Math.round((completedCount / totalCount) * 100)\<close> works on IEEE 754 binary64
  numbers: the quotient is rounded to the nearest binary64 (ties to even), the product with
  100 is rounded again, and \<^verbatim>\<open>Math.round\<close> takes the nearest integer, ties towards
  \<open>+\<infinity>\<close>. A positive binary64 is represented exactly as \<open>mant * 2 ^ expo\<close>
  with a 53-bit mantissa. The counts are array lengths (below \<open>2 ^ 32\<close>), so they are
  binary64 numbers themselves and neither overflow nor subnormal numbers occur.
\<close>

function bit_length :: "int \<Rightarrow> nat" where
  "bit_length n = (if n \<le> 0 then 0 else Suc (bit_length (n div 2)))"
  by pat_completeness auto
termination
  by (relation "measure nat") auto

declare bit_length.simps [simp del]

text \<open>The integer nearest to \<open>n / d\<close> for \<open>d > 0\<close>, ties to the even one.\<close>

definition round_half_even :: "int \<Rightarrow> int \<Rightarrow> int" where
  "round_half_even n d =
     (let q = n div d; r = n mod d in
      if 2 * r < d then q else if d < 2 * r then q + 1 else if even q then q else q + 1)"

record binary64 =
  mant :: int
  expo :: int

text \<open>
  The binary64 nearest to the rational \<open>n / d\<close> (\<open>n \<ge> 0\<close>, \<open>d > 0\<close>): with
  \<open>k\<close> the difference of the bit lengths, \<open>n / d\<close> lies between \<open>2 ^ (k - 1)\<close> and
  \<open>2 ^ (k + 1)\<close>; the exponent \<open>e\<close> is chosen so that \<open>n / d / 2 ^ e\<close> lies in
  \<open>[2 ^ 52, 2 ^ 53)\<close>, and the mantissa is that number rounded.
\<close>

definition fl :: "int \<Rightarrow> int \<Rightarrow> binary64" where
  "fl n d =
     (if n = 0 then \<lparr>mant = 0, expo = 0\<rparr>
      else
        let k = int (bit_length n) - int (bit_length d);
            e = (if d * 2 ^ nat k \<le> n * 2 ^ nat (- k) then k - 52 else k - 53)
        in \<lparr>mant = round_half_even (n * 2 ^ nat (- e)) (d * 2 ^ nat e), expo = e\<rparr>)"

definition Number_div :: "int \<Rightarrow> int \<Rightarrow> binary64" where
  "Number_div a b = fl a b"

definition Number_times :: "binary64 \<Rightarrow> int \<Rightarrow> binary64" where
  "Number_times x k = fl (mant x * k * 2 ^ nat (expo x)) (2 ^ nat (- expo x))"

definition Math_round :: "binary64 \<Rightarrow> int" where
  "Math_round x =
     (2 * (mant x * 2 ^ nat (expo x)) + 2 ^ nat (- expo x)) div (2 * 2 ^ nat (- expo x))"

definition completionRate :: "screen \<Rightarrow> int" where
  "completionRate st =
     (if totalCount st = 0 then 0
      else Math_round (Number_times (Number_div (completedCount st) (totalCount st)) 100))"

text \<open>
  The rate as the specification words it, \<open>round(100 * completed / total)\<close> in exact
  arithmetic, with ties rounded up as \<^verbatim>\<open>Math.round\<close> does.
\<close>

definition spec_completionRate :: "screen \<Rightarrow> int" where
  "spec_completionRate st =
     (if totalCount st = 0 then 0
      else (200 * completedCount st + totalCount st) div (2 * totalCount st))"

section \<open>Persistence\<close>

subsection \<open>\<^verbatim>\<open>JSON.stringify\<close> on a task list\<close>

text \<open>
  \<^verbatim>\<open>saveData\<close> serialises the list with \<^verbatim>\<open>JSON.stringify(nextTasks)\<close>. For an array
  of objects with the properties \<^verbatim>\<open>id\<close>, \<^verbatim>\<open>title\<close>, \<^verbatim>\<open>completed\<close> (the order
  in which \<^verbatim>\<open>addTask\<close> creates them and the spread in \<^verbatim>\<open>toggleTask\<close> keeps them)
  ECMAScript prescribes the text below, without any white space. \<^verbatim>\<open>QuoteJSONString\<close>
  walks over the code points of the string: a leading surrogate followed by a trailing
  one is copied, a lone surrogate and a control character are written as
  \<^verbatim>\<open>\uXXXX\<close> with lower-case hexadecimal digits, and seven characters have a
  two-character escape.
\<close>

definition is_lead :: "16 word \<Rightarrow> bool" where
  "is_lead c = (0xD800 \<le> c \<and> c \<le> 0xDBFF)"

definition is_trail :: "16 word \<Rightarrow> bool" where
  "is_trail c = (0xDC00 \<le> c \<and> c \<le> 0xDFFF)"

definition hexdigit :: "16 word \<Rightarrow> 16 word" where
  "hexdigit n = (if n < 10 then 0x30 + n else 0x57 + n)"

definition UnicodeEscape :: "16 word \<Rightarrow> jsstring" where
  "UnicodeEscape c =
     [0x5C, 0x75, hexdigit (drop_bit 12 c), hexdigit (drop_bit 8 c AND 0xF),
      hexdigit (drop_bit 4 c AND 0xF), hexdigit (c AND 0xF)]"

definition quote_unit :: "16 word \<Rightarrow> jsstring" where
  "quote_unit c =
     (if c = 0x08 then [0x5C, 0x62]
      else if c = 0x09 then [0x5C, 0x74]
      else if c = 0x0A then [0x5C, 0x6E]
      else if c = 0x0C then [0x5C, 0x66]
      else if c = 0x0D then [0x5C, 0x72]
      else if c = 0x22 then [0x5C, 0x22]
      else if c = 0x5C then [0x5C, 0x5C]
      else if c < 0x20 \<or> is_lead c \<or> is_trail c then UnicodeEscape c
      else [c])"

fun quote_units :: "jsstring \<Rightarrow> jsstring" where
  "quote_units [] = []"
| "quote_units [c] = quote_unit c"
| "quote_units (c # d # cs) =
     (if is_lead c \<and> is_trail d then c # d # quote_units cs
      else quote_unit c @ quote_units (d # cs))"

definition QuoteJSONString :: "jsstring \<Rightarrow> jsstring" where
  "QuoteJSONString s = 0x22 # quote_units s @ [0x22]"

definition stringify_task :: "TodoItem \<Rightarrow> jsstring" where
  "stringify_task t =
     js ''{'' @ QuoteJSONString (js ''id'') @ js '':'' @ QuoteJSONString (id_item t)
     @ js '','' @ QuoteJSONString (js ''title'') @ js '':'' @ QuoteJSONString (title t)
     @ js '','' @ QuoteJSONString (js ''completed'') @ js '':''
     @ (if completed t then js ''true'' else js ''false'') @ js ''}''"

fun join_comma :: "jsstring list \<Rightarrow> jsstring" where
  "join_comma [] = []"
| "join_comma [x] = x"
| "join_comma (x # y # ys) = x @ 0x2C # join_comma (y # ys)"

definition JSON_stringify :: "TodoItem list \<Rightarrow> jsstring" where
  "JSON_stringify l = 0x5B # join_comma (map stringify_task l) @ [0x5D]"

subsection \<open>\<^verbatim>\<open>JSON.parse\<close>\<close>

text \<open>
  \<^verbatim>\<open>loadData\<close> calls \<^verbatim>\<open>JSON.parse\<close> on the stored text. The model follows the JSON
  grammar of ECMA-404: the text is cut into tokens, and the token sequence is read by a
  pushdown automaton whose stack holds the arrays and objects that are still open. A
  number keeps its literal text (no task field is a number, so its binary64 value is
  never needed); an object keeps its members in source order, a repeated key being
  resolved on lookup in favour of the last occurrence, as \<^verbatim>\<open>JSON.parse\<close> does.
\<close>

datatype json =
    JNull | JBool bool | JNumber jsstring | JString jsstring
  | JArray "json list" | JObject "(jsstring \<times> json) list"

datatype token =
    T_lbrace | T_rbrace | T_lbracket | T_rbracket | T_comma | T_colon
  | T_string jsstring | T_number jsstring | T_true | T_false | T_null

definition hexval :: "16 word \<Rightarrow> 16 word option" where
  "hexval c =
     (if 0x30 \<le> c \<and> c \<le> 0x39 then Some (c - 0x30)
      else if 0x61 \<le> c \<and> c \<le> 0x66 then Some (c - 0x57)
      else if 0x41 \<le> c \<and> c \<le> 0x46 then Some (c - 0x37)
      else None)"

definition hex4 :: "16 word \<Rightarrow> 16 word \<Rightarrow> 16 word \<Rightarrow> 16 word \<Rightarrow> 16 word option" where
  "hex4 h1 h2 h3 h4 =
     (case (hexval h1, hexval h2, hexval h3, hexval h4) of
        (Some a, Some b, Some c, Some d) \<Rightarrow>
          Some (push_bit 12 a OR push_bit 8 b OR push_bit 4 c OR d)
      | _ \<Rightarrow> None)"

definition unescape :: "16 word \<Rightarrow> 16 word option" where
  "unescape e =
     (if e = 0x22 then Some 0x22
      else if e = 0x2F then Some 0x2F
      else if e = 0x5C then Some 0x5C
      else if e = 0x62 then Some 0x08
      else if e = 0x66 then Some 0x0C
      else if e = 0x6E then Some 0x0A
      else if e = 0x72 then Some 0x0D
      else if e = 0x74 then Some 0x09
      else None)"

definition cons_unit :: "16 word \<Rightarrow> (jsstring \<times> jsstring) option \<Rightarrow> (jsstring \<times> jsstring) option" where
  "cons_unit u r = (case r of None \<Rightarrow> None | Some (s, rest) \<Rightarrow> Some (u # s, rest))"

fun lex_string :: "jsstring \<Rightarrow> (jsstring \<times> jsstring) option" where
  "lex_string [] = None"
| "lex_string (c # cs) =
     (if c = 0x22 then Some ([], cs)
      else if c = 0x5C then
        (case cs of
           [] \<Rightarrow> None
         | e # es \<Rightarrow>
             if e = 0x75 then
               (case es of
                  h1 # h2 # h3 # h4 # r \<Rightarrow>
                    (case hex4 h1 h2 h3 h4 of
                       None \<Rightarrow> None
                     | Some u \<Rightarrow> cons_unit u (lex_string r))
                | _ \<Rightarrow> None)
             else
               (case unescape e of
                  None \<Rightarrow> None
                | Some u \<Rightarrow> cons_unit u (lex_string es)))
      else if c < 0x20 then None
      else cons_unit c (lex_string cs))"


definition is_digit :: "16 word \<Rightarrow> bool" where
  "is_digit c = (0x30 \<le> c \<and> c \<le> 0x39)"

definition lex_digits :: "jsstring \<Rightarrow> (jsstring \<times> jsstring) option" where
  "lex_digits cs =
     (if takeWhile is_digit cs = [] then None
      else Some (takeWhile is_digit cs, dropWhile is_digit cs))"

definition lex_int :: "jsstring \<Rightarrow> (jsstring \<times> jsstring) option" where
  "lex_int cs =
     (case cs of
        [] \<Rightarrow> None
      | c # r \<Rightarrow>
          if c = 0x30 then Some ([c], r)
          else if is_digit c then Some (c # takeWhile is_digit r, dropWhile is_digit r)
          else None)"

definition lex_frac :: "jsstring \<Rightarrow> (jsstring \<times> jsstring) option" where
  "lex_frac cs =
     (case cs of
        [] \<Rightarrow> Some ([], cs)
      | c # r \<Rightarrow>
          if c = 0x2E then
            (case lex_digits r of None \<Rightarrow> None | Some (ds, r') \<Rightarrow> Some (c # ds, r'))
          else Some ([], cs))"

definition lex_exp :: "jsstring \<Rightarrow> (jsstring \<times> jsstring) option" where
  "lex_exp cs =
     (case cs of
        [] \<Rightarrow> Some ([], cs)
      | c # r \<Rightarrow>
          if c = 0x65 \<or> c = 0x45 then
            (case r of
               [] \<Rightarrow> None
             | s # r' \<Rightarrow>
                 if s = 0x2B \<or> s = 0x2D then
                   (case lex_digits r' of None \<Rightarrow> None
                    | Some (ds, r'') \<Rightarrow> Some (c # s # ds, r''))
                 else
                   (case lex_digits r of None \<Rightarrow> None
                    | Some (ds, r'') \<Rightarrow> Some (c # ds, r'')))
          else Some ([], cs))"

definition lex_number :: "jsstring \<Rightarrow> (jsstring \<times> jsstring) option" where
  "lex_number cs =
     (let (sign, cs1) = (case cs of [] \<Rightarrow> ([], cs)
                          | c # r \<Rightarrow> if c = 0x2D then ([c], r) else ([], cs))
      in case lex_int cs1 of
           None \<Rightarrow> None
         | Some (ip, cs2) \<Rightarrow>
             (case lex_frac cs2 of
                None \<Rightarrow> None
              | Some (fp, cs3) \<Rightarrow>
                  (case lex_exp cs3 of
                     None \<Rightarrow> None
                   | Some (ep, cs4) \<Rightarrow> Some (sign @ ip @ fp @ ep, cs4))))"


definition is_json_space :: "16 word \<Rightarrow> bool" where
  "is_json_space c = (c = 0x09 \<or> c = 0x0A \<or> c = 0x0D \<or> c = 0x20)"

definition cons_token :: "token \<Rightarrow> token list option \<Rightarrow> token list option" where
  "cons_token t r = (case r of None \<Rightarrow> None | Some ts \<Rightarrow> Some (t # ts))"

text \<open>
  The tokenizer continues on the rest that the string and number readers return; these
  rests are shorter than the input, which is what its termination needs.
\<close>

lemma cons_unit_length:
  "cons_unit u r = Some (s, rest) \<Longrightarrow> \<exists>s'. r = Some (s', rest)"
  by (auto simp: cons_unit_def split: option.splits)

lemma lex_string_length: "lex_string cs = Some (s, rest) \<Longrightarrow> length rest < length cs"
proof (induction cs arbitrary: s rule: lex_string.induct)
  case 1
  then show ?case by simp
next
  case (2 c cs)
  show ?case
  proof (cases "c = 0x22")
    case True
    with "2.prems" show ?thesis by simp
  next
    case quote: False
    show ?thesis
    proof (cases "c = 0x5C")
      case bs: True
      show ?thesis
      proof (cases cs)
        case Nil
        with "2.prems" quote bs show ?thesis by simp
      next
        case (Cons e es)
        show ?thesis
        proof (cases "e = 0x75")
          case u: True
          from "2.prems" quote bs Cons u obtain h1 h2 h3 h4 r v
            where es: "es = h1 # h2 # h3 # h4 # r" and h: "hex4 h1 h2 h3 h4 = Some v"
              and c: "cons_unit v (lex_string r) = Some (s, rest)"
            by (auto split: list.splits option.splits)
          from c obtain s' where "lex_string r = Some (s', rest)"
            using cons_unit_length by blast
          with "2.IH"(1) quote bs Cons u es h have "length rest < length r" by auto
          with Cons es show ?thesis by simp
        next
          case nu: False
          from "2.prems" quote bs Cons nu obtain v
            where h: "unescape e = Some v"
              and c: "cons_unit v (lex_string es) = Some (s, rest)"
            by (auto split: option.splits)
          from c obtain s' where "lex_string es = Some (s', rest)"
            using cons_unit_length by blast
          with "2.IH"(2) quote bs Cons nu h have "length rest < length es" by auto
          with Cons show ?thesis by simp
        qed
      qed
    next
      case nbs: False
      from "2.prems" quote nbs have ge: "\<not> c < 0x20"
        and c: "cons_unit c (lex_string cs) = Some (s, rest)"
        by (auto split: if_splits)
      from c obtain s' where "lex_string cs = Some (s', rest)"
        using cons_unit_length by blast
      with "2.IH"(3) quote nbs ge have "length rest < length cs" by auto
      then show ?thesis by simp
    qed
  qed
qed

lemma lex_digits_length: "lex_digits cs = Some (ds, rest) \<Longrightarrow> length rest \<le> length cs"
  by (auto simp: lex_digits_def length_dropWhile_le split: if_splits)

lemma lex_int_length: "lex_int cs = Some (ds, rest) \<Longrightarrow> length rest < length cs"
  by (auto simp: lex_int_def length_dropWhile_le less_Suc_eq_le split: list.splits if_splits)

lemma lex_frac_length: "lex_frac cs = Some (ds, rest) \<Longrightarrow> length rest \<le> length cs"
  by (auto simp: lex_frac_def split: list.splits if_splits option.splits
           dest!: lex_digits_length)

lemma lex_exp_length: "lex_exp cs = Some (ds, rest) \<Longrightarrow> length rest \<le> length cs"
  by (auto simp: lex_exp_def split: list.splits if_splits option.splits
           dest!: lex_digits_length)

lemma lex_number_length: "lex_number cs = Some (n, rest) \<Longrightarrow> length rest < length cs"
proof -
  assume a: "lex_number cs = Some (n, rest)"
  obtain sign cs1 where sc: "(case cs of [] \<Rightarrow> ([], cs)
        | c # r \<Rightarrow> if c = 0x2D then ([c], r) else ([], cs)) = (sign, cs1)"
    by (cases "(case cs of [] \<Rightarrow> ([], cs) | c # r \<Rightarrow> if c = 0x2D then ([c], r) else ([], cs))") auto
  then have l1: "length cs1 \<le> length cs"
    by (auto split: list.splits if_splits)
  from a sc obtain ip cs2 fp cs3 ep where
    i: "lex_int cs1 = Some (ip, cs2)" and f: "lex_frac cs2 = Some (fp, cs3)"
    and e: "lex_exp cs3 = Some (ep, rest)"
    by (auto simp: lex_number_def split: option.splits)
  from lex_int_length [OF i] lex_frac_length [OF f] lex_exp_length [OF e] l1
  show ?thesis by simp
qed

function tokenize :: "jsstring \<Rightarrow> token list option" where
  "tokenize [] = Some []"
| "tokenize (c # cs) =
     (if is_json_space c then tokenize cs
      else if c = 0x7B then cons_token T_lbrace (tokenize cs)
      else if c = 0x7D then cons_token T_rbrace (tokenize cs)
      else if c = 0x5B then cons_token T_lbracket (tokenize cs)
      else if c = 0x5D then cons_token T_rbracket (tokenize cs)
      else if c = 0x2C then cons_token T_comma (tokenize cs)
      else if c = 0x3A then cons_token T_colon (tokenize cs)
      else if c = 0x22 then
        (case lex_string cs of
           None \<Rightarrow> None
         | Some (s, rest) \<Rightarrow> cons_token (T_string s) (tokenize rest))
      else if c = 0x74 then
        (if take 3 cs = js ''rue'' then cons_token T_true (tokenize (drop 3 cs)) else None)
      else if c = 0x66 then
        (if take 4 cs = js ''alse'' then cons_token T_false (tokenize (drop 4 cs)) else None)
      else if c = 0x6E then
        (if take 3 cs = js ''ull'' then cons_token T_null (tokenize (drop 3 cs)) else None)
      else if c = 0x2D \<or> is_digit c then
        (case lex_number (c # cs) of
           None \<Rightarrow> None
         | Some (n, rest) \<Rightarrow> cons_token (T_number n) (tokenize rest))
      else None)"
  by pat_completeness auto
termination
proof (relation "measure length")
  show "wf (measure length)" by simp
next
  fix c cs x2 x y
  assume "lex_string cs = Some x2" "(x, y) = x2"
  then show "(y, c # cs) \<in> measure length"
    using lex_string_length [of cs x y] by simp
next
  fix c cs x2 x y
  assume "lex_number (c # cs) = Some x2" "(x, y) = x2"
  then show "(y, c # cs) \<in> measure length"
    using lex_number_length [of "c # cs" x y] by simp
qed simp_all

declare tokenize.simps [simp del]

datatype frame =
    F_arr "json list"
  | F_obj "(jsstring \<times> json) list" jsstring

datatype pstate =
    P_value "frame list"
  | P_arr_open "frame list"
  | P_obj_open "frame list"
  | P_key "(jsstring \<times> json) list" "frame list"
  | P_colon "(jsstring \<times> json) list" jsstring "frame list"
  | P_after json "frame list"

fun value_start :: "frame list \<Rightarrow> token \<Rightarrow> pstate option" where
  "value_start stk T_null = Some (P_after JNull stk)"
| "value_start stk T_true = Some (P_after (JBool True) stk)"
| "value_start stk T_false = Some (P_after (JBool False) stk)"
| "value_start stk (T_number n) = Some (P_after (JNumber n) stk)"
| "value_start stk (T_string s) = Some (P_after (JString s) stk)"
| "value_start stk T_lbracket = Some (P_arr_open stk)"
| "value_start stk T_lbrace = Some (P_obj_open stk)"
| "value_start stk _ = None"

fun pstep :: "pstate \<Rightarrow> token \<Rightarrow> pstate option" where
  "pstep (P_value stk) t = value_start stk t"
| "pstep (P_arr_open stk) t =
     (if t = T_rbracket then Some (P_after (JArray []) stk)
      else value_start (F_arr [] # stk) t)"
| "pstep (P_obj_open stk) t =
     (case t of
        T_rbrace \<Rightarrow> Some (P_after (JObject []) stk)
      | T_string k \<Rightarrow> Some (P_colon [] k stk)
      | _ \<Rightarrow> None)"
| "pstep (P_key ms stk) t =
     (case t of T_string k \<Rightarrow> Some (P_colon ms k stk) | _ \<Rightarrow> None)"
| "pstep (P_colon ms k stk) t =
     (if t = T_colon then Some (P_value (F_obj ms k # stk)) else None)"
| "pstep (P_after v []) t = None"
| "pstep (P_after v (F_arr es # stk)) t =
     (if t = T_comma then Some (P_value (F_arr (es @ [v]) # stk))
      else if t = T_rbracket then Some (P_after (JArray (es @ [v])) stk)
      else None)"
| "pstep (P_after v (F_obj ms k # stk)) t =
     (if t = T_comma then Some (P_key (ms @ [(k, v)]) stk)
      else if t = T_rbrace then Some (P_after (JObject (ms @ [(k, v)])) stk)
      else None)"

fun prun :: "pstate \<Rightarrow> token list \<Rightarrow> pstate option" where
  "prun p [] = Some p"
| "prun p (t # ts) = (case pstep p t of None \<Rightarrow> None | Some p' \<Rightarrow> prun p' ts)"

datatype json_error = SyntaxError

definition JSON_parse :: "jsstring \<Rightarrow> json_error + json" where
  "JSON_parse text =
     (case tokenize text of
        None \<Rightarrow> Inl SyntaxError
      | Some ts \<Rightarrow>
          (case prun (P_value []) ts of
             Some (P_after v []) \<Rightarrow> Inr v
           | _ \<Rightarrow> Inl SyntaxError))"

subsection \<open>The parsed value as a task list\<close>

text \<open>
  TypeScript types are erased at run time: \<^verbatim>\<open>setTasks(JSON.parse(storedTasks))\<close> stores
  whatever value the text denotes. The state of the model is typed, so it can hold the
  value exactly when it is an array of objects that have a string \<^verbatim>\<open>id\<close>, a string
  \<^verbatim>\<open>title\<close> and a boolean \<^verbatim>\<open>completed\<close>; \<open>as_tasks\<close> reads such a value as a
  \<open>TodoItem list\<close>, and \<open>json_of_tasks\<close> is the value of a list. A property is looked
  up as JavaScript does it, the last member with the key being the one that counts. The
  order of the properties and any further property of a stored object are not part of
  the typed state.
\<close>

definition json_of_task :: "TodoItem \<Rightarrow> json" where
  "json_of_task t =
     JObject [(js ''id'', JString (id_item t)), (js ''title'', JString (title t)),
              (js ''completed'', JBool (completed t))]"

definition json_of_tasks :: "TodoItem list \<Rightarrow> json" where
  "json_of_tasks l = JArray (map json_of_task l)"

definition get_prop :: "(jsstring \<times> json) list \<Rightarrow> jsstring \<Rightarrow> json option" where
  "get_prop ms k = map_of (rev ms) k"

fun as_task :: "json \<Rightarrow> TodoItem option" where
  "as_task (JObject ms) =
     (case (get_prop ms (js ''id''), get_prop ms (js ''title''), get_prop ms (js ''completed'')) of
        (Some (JString i), Some (JString t), Some (JBool c)) \<Rightarrow>
          Some \<lparr>id_item = i, title = t, completed = c\<rparr>
      | _ \<Rightarrow> None)"
| "as_task _ = None"

fun as_tasks :: "json \<Rightarrow> TodoItem list option" where
  "as_tasks (JArray vs) = those (map as_task vs)"
| "as_tasks _ = None"

text \<open>
  The tokens of the text that \<^verbatim>\<open>JSON.stringify\<close> writes for a task and for the
  elements of a task list; the proofs about the tokenizer are stated with them.
\<close>

definition task_tokens :: "TodoItem \<Rightarrow> token list" where
  "task_tokens t =
     [T_lbrace, T_string (js ''id''), T_colon, T_string (id_item t), T_comma,
      T_string (js ''title''), T_colon, T_string (title t), T_comma,
      T_string (js ''completed''), T_colon, (if completed t then T_true else T_false),
      T_rbrace]"

fun list_tokens :: "TodoItem list \<Rightarrow> token list" where
  "list_tokens [] = []"
| "list_tokens [t] = task_tokens t"
| "list_tokens (t # u # l) = task_tokens t @ T_comma # list_tokens (u # l)"

subsection \<open>\<^verbatim>\<open>AsyncStorage\<close>, \<^verbatim>\<open>saveData\<close> and \<^verbatim>\<open>loadData\<close>\<close>

text \<open>
  \<^verbatim>\<open>AsyncStorage\<close> is a key-value store of strings whose operations may reject; the flag
  \<open>reachable\<close> says whether they succeed. Both \<^verbatim>\<open>saveData\<close> and \<^verbatim>\<open>loadData\<close> catch every
  exception and only log it. \<^verbatim>\<open>getItem\<close> yields \<^verbatim>\<open>null\<close> for a missing key;
  \<^verbatim>\<open>null\<close> and the empty string are falsy.

  The outcome of \<^verbatim>\<open>loadData\<close> is the new state, or \<open>Ill_typed v\<close> when the stored text
  is valid JSON for a value \<open>v\<close> that is not a task list: the component then holds \<open>v\<close>
  in place of a list, which the typed state cannot express.
\<close>

datatype storage_error = StorageUnavailable

type_synonym storage = "jsstring \<rightharpoonup> jsstring"

type_synonym getItem_result = "storage_error + jsstring option"

definition STORAGE_KEY :: jsstring where
  "STORAGE_KEY = js ''checkoff_tasks''"

definition getItem :: "bool \<Rightarrow> storage \<Rightarrow> jsstring \<Rightarrow> getItem_result" where
  "getItem reachable s k = (if reachable then Inr (s k) else Inl StorageUnavailable)"

definition setItem :: "bool \<Rightarrow> storage \<Rightarrow> jsstring \<Rightarrow> jsstring \<Rightarrow> storage_error + storage" where
  "setItem reachable s k v = (if reachable then Inr (s(k \<mapsto> v)) else Inl StorageUnavailable)"

definition saveData :: "bool \<Rightarrow> TodoItem list \<Rightarrow> storage \<Rightarrow> storage" where
  "saveData reachable nextTasks s =
     (case setItem reachable s STORAGE_KEY (JSON_stringify nextTasks) of
        Inl error \<Rightarrow> s
      | Inr s' \<Rightarrow> s')"

datatype load_outcome = Loaded screen | Ill_typed json

definition loadData :: "getItem_result \<Rightarrow> screen \<Rightarrow> load_outcome" where
  "loadData r st =
     (case r of
        Inl error \<Rightarrow> Loaded st
      | Inr None \<Rightarrow> Loaded st
      | Inr (Some storedTasks) \<Rightarrow>
          if storedTasks = [] then Loaded st
          else
            (case JSON_parse storedTasks of
               Inl error \<Rightarrow> Loaded st
             | Inr v \<Rightarrow>
                 (case as_tasks v of
                    Some l \<Rightarrow> Loaded (st\<lparr>tasks := l\<rparr>)
                  | None \<Rightarrow> Ill_typed v)))"

text \<open>
  The effect \<^verbatim>\<open>useEffect(() => { saveData(tasks) }, [tasks])\<close> writes the list, and
  nothing else of the state, after every change of the list.
\<close>

definition persist :: "bool \<Rightarrow> screen \<Rightarrow> storage \<Rightarrow> storage" where
  "persist reachable st s = saveData reachable (tasks st) s"

section \<open>Runs of the component\<close>

text \<open>
  The events that change the state: the load at start-up with the result of
  \<^verbatim>\<open>getItem\<close>, typing into the input field, and the five handlers. \<open>AddTask\<close> carries
  the clock reading of the call.
\<close>

datatype action =
    Hydrate getItem_result
  | SetInputValue jsstring
  | AddTask int
  | ToggleTask jsstring
  | DeleteTask jsstring
  | ClearCompleted
  | SetFilter Filter

fun step :: "action \<Rightarrow> screen \<Rightarrow> load_outcome" where
  "step (Hydrate r) st = loadData r st"
| "step (SetInputValue s) st = Loaded (setInputValue s st)"
| "step (AddTask now) st = Loaded (addTask now st)"
| "step (ToggleTask i) st = Loaded (toggleTask i st)"
| "step (DeleteTask i) st = Loaded (deleteTask i st)"
| "step ClearCompleted st = Loaded (clearCompleted st)"
| "step (SetFilter f) st = Loaded (setFilter f st)"

fun run :: "action list \<Rightarrow> screen \<Rightarrow> load_outcome" where
  "run [] st = Loaded st"
| "run (a # as) st =
     (case step a st of
        Loaded st' \<Rightarrow> run as st'
      | Ill_typed v \<Rightarrow> Ill_typed v)"

text \<open>
  The ids of a run stay unique along it when they are pairwise different in every state
  that it passes. A run is free of collisions when every \<open>AddTask\<close> that creates a task
  (the input field holds more than white space; \<^verbatim>\<open>addTask\<close> returns before it reads
  the clock otherwise) reads a clock value whose decimal rendering is not the id of a
  task in the list at that moment, and every list a \<open>Hydrate\<close> leaves in the state has
  pairwise different ids. Both look at a run as far as its states are task lists: it
  ends where a load installs a value that is none.
\<close>

fun unique_along :: "action list \<Rightarrow> screen \<Rightarrow> bool" where
  "unique_along [] st = distinct (map id_item (tasks st))"
| "unique_along (a # as) st =
     (distinct (map id_item (tasks st)) \<and>
      (case step a st of
         Loaded st' \<Rightarrow> unique_along as st'
       | Ill_typed v \<Rightarrow> True))"

fun collision_free :: "action list \<Rightarrow> screen \<Rightarrow> bool" where
  "collision_free [] st = True"
| "collision_free (AddTask now # as) st =
     ((trim (inputValue st) = [] \<or> Number_toString now \<notin> id_item ` set (tasks st)) \<and>
      collision_free as (addTask now st))"
| "collision_free (Hydrate r # as) st =
     (case loadData r st of
        Loaded st' \<Rightarrow> distinct (map id_item (tasks st')) \<and> collision_free as st'
      | Ill_typed v \<Rightarrow> True)"
| "collision_free (a # as) st =
     (case step a st of
        Loaded st' \<Rightarrow> collision_free as st'
      | Ill_typed v \<Rightarrow> True)"

section \<open>Sample states\<close>

definition milk :: TodoItem where
  "milk = \<lparr>id_item = js ''1700000000001'', title = js ''Buy milk'', completed = True\<rparr>"

definition report :: TodoItem where
  "report = \<lparr>id_item = js ''1700000000002'', title = js ''Write report'', completed = False\<rparr>"

definition sample :: screen where
  "sample = \<lparr>tasks = [report, milk], inputValue = js ''  Call mom '', filter_st = F_completed\<rparr>"

text \<open>Two tasks created within the same millisecond.\<close>

definition bread :: TodoItem where
  "bread = \<lparr>id_item = js ''1700000000001'', title = js ''Buy bread'', completed = False\<rparr>"

definition twins :: screen where
  "twins = \<lparr>tasks = [bread, milk], inputValue = [], filter_st = F_all\<rparr>"

text \<open>Forty tasks, the first twenty-three of them completed.\<close>

definition forty :: screen where
  "forty =
     \<lparr>tasks = map (\<lambda>n. \<lparr>id_item = Number_toString n, title = js ''task'',
                          completed = (n \<le> 23)\<rparr>) [1..40],
      inputValue = [], filter_st = F_all\<rparr>"

text \<open>One task, and an input field that holds only blanks.\<close>

definition blank :: screen where
  "blank = \<lparr>tasks = [milk], inputValue = js ''   '', filter_st = F_all\<rparr>"

text \<open>
  A session: nothing is stored yet, two tasks are typed in a millisecond apart, and the
  first one is ticked off.
\<close>

definition morning :: "action list" where
  "morning =
     [Hydrate (Inr None),
      SetInputValue (js ''Buy milk''), AddTask 1700000000001,
      SetInputValue (js '' Write report''), AddTask 1700000000002,
      ToggleTask (js ''1700000000001'')]"

text \<open>A session in which the clock is set back between the two additions.\<close>

definition clock_set_back :: "action list" where
  "clock_set_back =
     [SetInputValue (js ''Write report''), AddTask 1700000000002,
      SetInputValue (js ''   ''), AddTask 1700000000002,
      SetInputValue (js ''Buy bread''), AddTask 1700000000001]"

text \<open>A session in which the clock shows the same millisecond at both additions.\<close>

definition same_millisecond :: "action list" where
  "same_millisecond =
     [SetInputValue (js ''Buy milk''), AddTask 1700000000001,
      ToggleTask (js ''1700000000001''),
      SetInputValue (js ''Buy bread''), AddTask 1700000000001]"

section \<open>Properties of the built-ins\<close>

lemma dropWhile_hd: "dropWhile P xs \<noteq> [] \<Longrightarrow> \<not> P (hd (dropWhile P xs))"
  by (metis hd_dropWhile)

text \<open>What \<open>trim\<close> returns neither starts nor ends with white space.\<close>

lemma trim_edges:
  assumes "trim s \<noteq> []"
  shows "\<not> is_trim_space (hd (trim s))" and "\<not> is_trim_space (last (trim s))"
proof -
  let ?a = "dropWhile is_trim_space s"
  let ?b = "dropWhile is_trim_space (rev ?a)"
  from assms have b: "?b \<noteq> []" by (simp add: trim_def)
  then have "\<not> is_trim_space (hd ?b)" by (rule dropWhile_hd)
  with b show "\<not> is_trim_space (last (trim s))"
    by (simp add: trim_def last_rev)
  have "?b = []" if "?a = []"
    unfolding that by simp
  with b have a: "?a \<noteq> []" by blast
  then have ha: "\<not> is_trim_space (hd ?a)" by (rule dropWhile_hd)
  have "rev ?a = takeWhile is_trim_space (rev ?a) @ ?b" by simp
  then have "?a = rev ?b @ rev (takeWhile is_trim_space (rev ?a))"
    by (metis rev_append rev_rev_ident)
  with b have "hd ?a = hd (rev ?b)" by (metis hd_append2 rev_is_Nil_conv)
  with ha show "\<not> is_trim_space (hd (trim s))" by (simp add: trim_def)
qed

text \<open>It is the input with white space, and nothing else, taken off at both ends.\<close>

lemma trim_decomp:
  "\<exists>l r. s = l @ trim s @ r \<and> list_all is_trim_space l \<and> list_all is_trim_space r"
proof -
  let ?a = "dropWhile is_trim_space s"
  let ?b = "dropWhile is_trim_space (rev ?a)"
  have 1: "s = takeWhile is_trim_space s @ ?a" by simp
  have "rev ?a = takeWhile is_trim_space (rev ?a) @ ?b" by simp
  then have 2: "?a = rev ?b @ rev (takeWhile is_trim_space (rev ?a))"
    by (metis rev_append rev_rev_ident)
  have "s = takeWhile is_trim_space s @ trim s @ rev (takeWhile is_trim_space (rev ?a))"
    using 1 2 by (metis trim_def)
  moreover have "list_all is_trim_space (takeWhile is_trim_space s)"
    by (simp add: list_all_iff) (meson set_takeWhileD)
  moreover have "list_all is_trim_space (rev (takeWhile is_trim_space (rev ?a)))"
    by (simp add: list_all_iff) (meson set_takeWhileD)
  ultimately show ?thesis by blast
qed

section \<open>Adding a task\<close>

text \<open>
  C2: \<^verbatim>\<open>addTask\<close> trims the input. When nothing is left the state stays as it is;
  otherwise the list grows by exactly one task, which stands first, in front of the tasks
  that were there, is not completed, has the trimmed text (free of white space at both
  ends) as its title and the decimal clock reading of the call as its id.
\<close>

theorem addTask_spec:
  "(trim (inputValue st) = [] \<longrightarrow> addTask now st = st) \<and>
   (trim (inputValue st) \<noteq> [] \<longrightarrow>
      tasks (addTask now st)
        = \<lparr>id_item = Number_toString now, title = trim (inputValue st), completed = False\<rparr>
          # tasks st
      \<and> totalCount (addTask now st) = totalCount st + 1
      \<and> \<not> is_trim_space (hd (trim (inputValue st)))
      \<and> \<not> is_trim_space (last (trim (inputValue st)))
      \<and> filter_st (addTask now st) = filter_st st)"
  by (simp add: addTask_def Let_def totalCount_def trim_edges)

theorem addTask_spec_witness:
  "trim (inputValue blank) = [] \<and> addTask 1700000000003 blank = blank \<and>
   trim (inputValue sample) \<noteq> [] \<and>
   tasks (addTask 1700000000003 sample)
     = [\<lparr>id_item = js ''1700000000003'', title = js ''Call mom'', completed = False\<rparr>,
        report, milk] \<and>
   totalCount (addTask 1700000000003 sample) = 3"
proof -
  have b: "trim (inputValue blank) = []"
    by (simp add: blank_def trim_def js_def is_trim_space_def)
  have t: "trim (inputValue sample) = js ''Call mom''"
    by (simp add: sample_def trim_def js_def is_trim_space_def)
  have n: "Number_toString 1700000000003 = js ''1700000000003''"
    by (simp add: Number_toString_def decimal.simps digit_def js_def)
  have l: "tasks sample = [report, milk]" "totalCount sample = 2"
    by (simp_all add: sample_def totalCount_def)
  have ne: "js ''Call mom'' \<noteq> []" by (simp add: js_def)
  show ?thesis
    using addTask_spec [of blank 1700000000003] addTask_spec [of sample 1700000000003]
    by (simp add: b t n l ne)
qed

section \<open>Filtering\<close>

text \<open>
  C10: the filtered view is an order-preserving subsequence of the stored list, and under
  the filter \<open>all\<close> it is the stored list itself.
\<close>

theorem filteredTasks_subseq:
  "subseq (filteredTasks st) (tasks st) \<and>
   (filter_st st = F_all \<longrightarrow> filteredTasks st = tasks st)"
  by (simp add: filteredTasks_def)

theorem filteredTasks_subseq_witness:
  "filter_st twins = F_all \<and> subseq (filteredTasks twins) (tasks twins) \<and>
   filteredTasks twins = [bread, milk]"
proof -
  have f: "filter_st twins = F_all" and t: "tasks twins = [bread, milk]"
    by (simp_all add: twins_def)
  show ?thesis
    using filteredTasks_subseq [of twins] by (simp add: f t)
qed

section \<open>Toggling a task\<close>

lemma toggle_twice:
  "map (\<lambda>task. if id_item task = i then task\<lparr>completed := \<not> completed task\<rparr> else task)
     (map (\<lambda>task. if id_item task = i then task\<lparr>completed := \<not> completed task\<rparr> else task) l)
   = l"
  by (induction l) simp_all

lemma toggle_absent:
  "i \<notin> id_item ` set l \<Longrightarrow>
   map (\<lambda>task. if id_item task = i then task\<lparr>completed := \<not> completed task\<rparr> else task) l = l"
  by (induction l) auto

lemma toggle_distinct:
  "distinct (map id_item l) \<Longrightarrow> k < length l \<Longrightarrow>
   map (\<lambda>task. if id_item task = id_item (l ! k)
                  then task\<lparr>completed := \<not> completed task\<rparr> else task) l
   = l[k := (l ! k)\<lparr>completed := \<not> completed (l ! k)\<rparr>]"
proof (induction l arbitrary: k)
  case Nil
  then show ?case by simp
next
  case (Cons t l)
  show ?case
  proof (cases k)
    case 0
    from Cons.prems have "id_item t \<notin> id_item ` set l" by simp
    then show ?thesis using 0 by (simp add: toggle_absent)
  next
    case (Suc j)
    with Cons.prems have j: "j < length l" and d: "distinct (map id_item l)"
      and n: "id_item t \<notin> id_item ` set l" by simp_all
    from j have "l ! j \<in> set l" by simp
    with n have "id_item t \<noteq> id_item (l ! j)" by force
    with Cons.IH [OF d j] Suc show ?thesis by simp
  qed
qed

lemma toggleTask_twice: "toggleTask i (toggleTask i st) = st"
proof -
  have "tasks (toggleTask i (toggleTask i st)) = tasks st"
    unfolding toggleTask_def by (simp add: toggle_twice del: map_map)
  then show ?thesis by (simp add: toggleTask_def)
qed

lemma toggleTask_absent: "i \<notin> id_item ` set (tasks st) \<Longrightarrow> toggleTask i st = st"
  by (simp add: toggleTask_def toggle_absent)

lemma toggleTask_pointwise:
  "k < length (tasks st) \<Longrightarrow>
     id_item (tasks (toggleTask i st) ! k) = id_item (tasks st ! k) \<and>
     title (tasks (toggleTask i st) ! k) = title (tasks st ! k) \<and>
     completed (tasks (toggleTask i st) ! k)
       = (if id_item (tasks st ! k) = i then \<not> completed (tasks st ! k)
          else completed (tasks st ! k))"
  by (simp add: toggleTask_def)

lemma toggleTask_distinct:
  "distinct (map id_item (tasks st)) \<Longrightarrow> k < length (tasks st) \<Longrightarrow>
   tasks (toggleTask (id_item (tasks st ! k)) st)
     = (tasks st)[k := (tasks st ! k)\<lparr>completed := \<not> completed (tasks st ! k)\<rparr>]"
  by (simp add: toggleTask_def toggle_distinct)

text \<open>
  C3, as amended: \<^verbatim>\<open>toggleTask(i)\<close> keeps the length and the order of the list and the
  id and title of every task; it flips the completed flag of exactly the tasks whose id
  is \<open>i\<close> and leaves the flag of every task with another id alone. When the ids of the
  list are pairwise different, toggling the id of the task at position \<open>k\<close> changes that
  one position only. Toggling twice restores the state, and an id that no task has
  leaves the state as it is.
\<close>

theorem toggleTask_spec:
  "length (tasks (toggleTask i st)) = length (tasks st) \<and>
   (\<forall>k < length (tasks st).
      id_item (tasks (toggleTask i st) ! k) = id_item (tasks st ! k) \<and>
      title (tasks (toggleTask i st) ! k) = title (tasks st ! k) \<and>
      completed (tasks (toggleTask i st) ! k)
        = (if id_item (tasks st ! k) = i then \<not> completed (tasks st ! k)
           else completed (tasks st ! k))) \<and>
   (distinct (map id_item (tasks st)) \<longrightarrow>
      (\<forall>k < length (tasks st).
         tasks (toggleTask (id_item (tasks st ! k)) st)
           = (tasks st)[k := (tasks st ! k)\<lparr>completed := \<not> completed (tasks st ! k)\<rparr>])) \<and>
   toggleTask i (toggleTask i st) = st \<and>
   (i \<notin> id_item ` set (tasks st) \<longrightarrow> toggleTask i st = st) \<and>
   inputValue (toggleTask i st) = inputValue st \<and>
   filter_st (toggleTask i st) = filter_st st"
proof (intro conjI allI impI)
  show "length (tasks (toggleTask i st)) = length (tasks st)"
    by (simp add: toggleTask_def)
  show "toggleTask i (toggleTask i st) = st" by (rule toggleTask_twice)
  show "inputValue (toggleTask i st) = inputValue st" by (simp add: toggleTask_def)
  show "filter_st (toggleTask i st) = filter_st st" by (simp add: toggleTask_def)
qed (simp_all add: toggleTask_pointwise toggleTask_absent toggleTask_distinct)

text \<open>Facts about the sample states.\<close>

lemma sample_ids:
  "id_item report \<noteq> id_item milk" "js ''404'' \<noteq> id_item report" "js ''404'' \<noteq> id_item milk"
  by (simp_all add: report_def milk_def js_def)

theorem toggleTask_spec_witness:
  "distinct (map id_item (tasks sample)) \<and> (1::nat) < length (tasks sample) \<and>
   tasks sample ! 1 = milk \<and>
   tasks (toggleTask (id_item milk) sample) = [report, milk\<lparr>completed := False\<rparr>] \<and>
   toggleTask (id_item milk) (toggleTask (id_item milk) sample) = sample \<and>
   js ''404'' \<notin> id_item ` set (tasks sample) \<and> toggleTask (js ''404'') sample = sample"
proof -
  have t: "tasks sample = [report, milk]" by (simp add: sample_def)
  have c: "completed milk" by (simp add: milk_def)
  have d: "distinct (map id_item (tasks sample))" by (simp add: t sample_ids)
  have a: "js ''404'' \<notin> id_item ` set (tasks sample)" by (simp add: t sample_ids)
  have e: "tasks (toggleTask (id_item milk) sample) = [report, milk\<lparr>completed := False\<rparr>]"
    by (simp add: toggleTask_def t c sample_ids)
  from toggleTask_spec [of "id_item milk" sample]
  have 1: "toggleTask (id_item milk) (toggleTask (id_item milk) sample) = sample"
    by (rule conjunct1 [OF conjunct2 [OF conjunct2 [OF conjunct2]]])
  from toggleTask_spec [of "js ''404''" sample] a
  have 2: "toggleTask (js ''404'') sample = sample"
    by blast
  show ?thesis using d a e 1 2 by (simp add: t)
qed

text \<open>
  C3 as stated fails on a list in which two tasks share an id: toggling the id of
  \<open>bread\<close> also flips \<open>milk\<close>, another task.
\<close>

theorem toggleTask_twins:
  "tasks twins = [bread, milk] \<and> bread \<noteq> milk \<and> id_item bread = id_item milk \<and>
   tasks (toggleTask (id_item bread) twins)
     = [bread\<lparr>completed := True\<rparr>, milk\<lparr>completed := False\<rparr>] \<and>
   milk\<lparr>completed := False\<rparr> \<noteq> milk"
  by (simp add: twins_def toggleTask_def bread_def milk_def js_def)

section \<open>Deleting a task\<close>

lemma filter_distinct_length:
  "distinct (map id_item l) \<Longrightarrow>
   length (filter (\<lambda>task. id_item task \<noteq> i) l)
     = length l - (if i \<in> id_item ` set l then 1 else 0)"
proof (induction l)
  case Nil
  then show ?case by simp
next
  case (Cons t l)
  then have ih: "length (filter (\<lambda>task. id_item task \<noteq> i) l)
        = length l - (if i \<in> id_item ` set l then 1 else 0)"
    and n: "id_item t \<notin> id_item ` set l" by simp_all
  show ?case
  proof (cases "id_item t = i")
    case True
    with n have "i \<notin> id_item ` set l" by simp
    with ih True show ?thesis by simp
  next
    case False
    show ?thesis
    proof (cases "i \<in> id_item ` set l")
      case True
      then have "0 < length l" by auto
      with ih False True show ?thesis by simp
    next
      case False
      with ih \<open>id_item t \<noteq> i\<close> show ?thesis by simp
    qed
  qed
qed

lemma filter_absent:
  "i \<notin> id_item ` set l \<Longrightarrow> filter (\<lambda>task. id_item task \<noteq> i) l = l"
  by (induction l) auto

text \<open>
  C4, as amended: \<^verbatim>\<open>deleteTask(i)\<close> removes every task whose id is \<open>i\<close> and keeps all
  the others in their order; it is a no-op when no task has that id. When the ids of
  the list are pairwise different, it removes exactly one task if the id is present, so
  the length decreases by 0 or 1.
\<close>

theorem deleteTask_spec:
  "subseq (tasks (deleteTask i st)) (tasks st) \<and>
   i \<notin> id_item ` set (tasks (deleteTask i st)) \<and>
   filter (\<lambda>task. id_item task \<noteq> i) (tasks (deleteTask i st))
     = filter (\<lambda>task. id_item task \<noteq> i) (tasks st) \<and>
   (i \<notin> id_item ` set (tasks st) \<longrightarrow> deleteTask i st = st) \<and>
   (distinct (map id_item (tasks st)) \<longrightarrow>
      length (tasks (deleteTask i st))
        = length (tasks st) - (if i \<in> id_item ` set (tasks st) then 1 else 0)) \<and>
   inputValue (deleteTask i st) = inputValue st \<and>
   filter_st (deleteTask i st) = filter_st st"
proof (intro conjI impI)
  show "i \<notin> id_item ` set (tasks (deleteTask i st))"
    by (auto simp: deleteTask_def)
  show "deleteTask i st = st" if "i \<notin> id_item ` set (tasks st)"
    using that by (simp add: deleteTask_def filter_absent)
  show "length (tasks (deleteTask i st))
        = length (tasks st) - (if i \<in> id_item ` set (tasks st) then 1 else 0)"
    if "distinct (map id_item (tasks st))"
    using filter_distinct_length [OF that, of i] by (simp add: deleteTask_def)
qed (simp_all add: deleteTask_def)

theorem deleteTask_spec_witness:
  "distinct (map id_item (tasks sample)) \<and>
   tasks (deleteTask (id_item milk) sample) = [report] \<and>
   length (tasks (deleteTask (id_item milk) sample)) = length (tasks sample) - 1 \<and>
   js ''404'' \<notin> id_item ` set (tasks sample) \<and> deleteTask (js ''404'') sample = sample"
proof -
  have t: "tasks sample = [report, milk]" by (simp add: sample_def)
  have d: "tasks (deleteTask (id_item milk) sample) = [report]"
    by (simp add: deleteTask_def t sample_ids)
  show ?thesis
    using deleteTask_spec [of "id_item milk" sample] deleteTask_spec [of "js ''404''" sample]
    by (simp add: t d sample_ids)
qed

text \<open>
  C4 as stated fails on a list in which two tasks share an id: one call removes both,
  and the length drops by 2.
\<close>

theorem deleteTask_twins:
  "length (tasks twins) = 2 \<and> length (tasks (deleteTask (id_item milk) twins)) = 0"
  by (simp add: twins_def deleteTask_def bread_def milk_def)

section \<open>Clearing the completed tasks\<close>

text \<open>
  C5: after \<^verbatim>\<open>clearCompleted\<close> no task of the list is completed; what is left is a
  subsequence of the old list that holds every task that was active, unchanged and in
  the same order; when no task is completed the state stays as it is.
\<close>

theorem clearCompleted_spec:
  "(\<forall>t \<in> set (tasks (clearCompleted st)). \<not> completed t) \<and>
   subseq (tasks (clearCompleted st)) (tasks st) \<and>
   filter (\<lambda>task. \<not> completed task) (tasks (clearCompleted st))
     = filter (\<lambda>task. \<not> completed task) (tasks st) \<and>
   ((\<forall>t \<in> set (tasks st). \<not> completed t) \<longrightarrow> clearCompleted st = st) \<and>
   inputValue (clearCompleted st) = inputValue st \<and>
   filter_st (clearCompleted st) = filter_st st"
proof (intro conjI impI)
  show "clearCompleted st = st" if "\<forall>t \<in> set (tasks st). \<not> completed t"
  proof -
    from that have "filter (\<lambda>task. \<not> completed task) (tasks st) = tasks st"
      by (simp add: filter_id_conv)
    then show ?thesis by (simp add: clearCompleted_def)
  qed
qed (simp_all add: clearCompleted_def)

theorem clearCompleted_spec_witness:
  "tasks (clearCompleted sample) = [report] \<and> \<not> completed report \<and>
   clearCompleted (clearCompleted sample) = clearCompleted sample"
proof -
  have t: "tasks sample = [report, milk]" by (simp add: sample_def)
  have c: "completed milk" "\<not> completed report" by (simp_all add: milk_def report_def)
  have r: "tasks (clearCompleted sample) = [report]"
    by (simp add: clearCompleted_def t c)
  from clearCompleted_spec [of sample]
  have n: "\<forall>t \<in> set (tasks (clearCompleted sample)). \<not> completed t"
    by (rule conjunct1)
  from clearCompleted_spec [of "clearCompleted sample"] n
  have i: "clearCompleted (clearCompleted sample) = clearCompleted sample"
    by blast
  from r c(2) i show ?thesis by (intro conjI)
qed

section \<open>\<^verbatim>\<open>JSON.parse\<close> inverts \<^verbatim>\<open>JSON.stringify\<close>\<close>

subsection \<open>Hexadecimal escapes\<close>

lemma F_mask: "(0xF::16 word) = mask 4"
  by (simp add: mask_eq_decr_exp)

lemma nibbles: "push_bit 12 (drop_bit 12 c) OR push_bit 8 (drop_bit 8 c AND 0xF)
     OR push_bit 4 (drop_bit 4 c AND 0xF) OR (c AND 0xF) = (c :: 16 word)"
  unfolding F_mask
proof (rule bit_word_eqI)
  fix n
  assume "n < LENGTH(16)"
  then have n: "n < 16" by simp
  consider "n < 4" | "4 \<le> n" "n < 8" | "8 \<le> n" "n < 12" | "12 \<le> n"
    by linarith
  then show "bit (push_bit 12 (drop_bit 12 c) OR push_bit 8 (drop_bit 8 c AND mask 4)
     OR push_bit 4 (drop_bit 4 c AND mask 4) OR (c AND mask 4)) n = bit c n"
    using n by cases (auto simp: bit_simps)
qed

lemma hexval_hexdigit: "n < 16 \<Longrightarrow> hexval (hexdigit n) = Some n"
  unfolding hexval_def hexdigit_def
  by (auto simp: word_le_nat_alt word_less_nat_alt unat_word_ariths) 

lemma nibble_lt: "(w AND 0xF :: 16 word) < 16"
  by (rule le_less_trans [OF word_and_le1]) simp

lemma nibble_top: "(drop_bit 12 w :: 16 word) < 16"
proof -
  have "unat w < 2 ^ 16" using unsigned_less [of w] by simp
  then have "unat w div 2 ^ 12 < 16" by simp
  then show ?thesis
    by (simp add: word_less_nat_alt unat_drop_bit_eq drop_bit_eq_div unat_div)
qed

lemma hex4_hexdigit:
  "a < 16 \<Longrightarrow> b < 16 \<Longrightarrow> c < 16 \<Longrightarrow> d < 16 \<Longrightarrow>
   hex4 (hexdigit a) (hexdigit b) (hexdigit c) (hexdigit d)
     = Some (push_bit 12 a OR push_bit 8 b OR push_bit 4 c OR d)"
  by (simp add: hex4_def hexval_hexdigit)

lemma hex4_nibbles:
  "hex4 (hexdigit (drop_bit 12 c)) (hexdigit (drop_bit 8 c AND 0xF))
        (hexdigit (drop_bit 4 c AND 0xF)) (hexdigit (c AND 0xF)) = Some c"
  by (simp only: hex4_hexdigit [OF nibble_top nibble_lt nibble_lt nibble_lt] nibbles)

subsection \<open>String literals\<close>

lemma cons_unit_Some [simp]: "cons_unit u (Some (s, r)) = Some (u # s, r)"
  by (simp add: cons_unit_def)

lemma lex_string_u:
  "hex4 h1 h2 h3 h4 = Some u \<Longrightarrow>
   lex_string (0x5C # 0x75 # h1 # h2 # h3 # h4 # r) = cons_unit u (lex_string r)"
  by simp

lemma lex_string_UnicodeEscape:
  "lex_string (UnicodeEscape c @ r) = cons_unit c (lex_string r)"
  by (simp add: UnicodeEscape_def lex_string_u [OF hex4_nibbles] del: lex_string.simps)

lemma lex_string_plain:
  "c \<noteq> 0x22 \<Longrightarrow> c \<noteq> 0x5C \<Longrightarrow> \<not> c < 0x20 \<Longrightarrow>
   lex_string (c # r) = cons_unit c (lex_string r)"
  by simp

lemma lex_string_surrogate:
  "is_lead c \<or> is_trail c \<Longrightarrow> lex_string (c # r) = cons_unit c (lex_string r)"
  by (rule lex_string_plain)
     (auto simp: is_lead_def is_trail_def word_less_nat_alt word_le_nat_alt)

lemma lex_string_escape:
  "unescape e = Some u \<Longrightarrow> e \<noteq> 0x75 \<Longrightarrow>
   lex_string (0x5C # e # r) = cons_unit u (lex_string r)"
  by simp

lemma lex_string_quote_unit: "lex_string (quote_unit c @ r) = cons_unit c (lex_string r)"
proof -
  consider "c = 0x08" | "c = 0x09" | "c = 0x0A" | "c = 0x0C" | "c = 0x0D" | "c = 0x22"
    | "c = 0x5C"
    | "c \<notin> {0x08, 0x09, 0x0A, 0x0C, 0x0D, 0x22, 0x5C}" "c < 0x20 \<or> is_lead c \<or> is_trail c"
    | "c \<notin> {0x08, 0x09, 0x0A, 0x0C, 0x0D, 0x22, 0x5C}" "\<not> (c < 0x20 \<or> is_lead c \<or> is_trail c)"
    by blast
  then show ?thesis
  proof cases
    case 8
    then have "quote_unit c = UnicodeEscape c" by (simp add: quote_unit_def)
    then show ?thesis by (simp only: lex_string_UnicodeEscape)
  next
    case 9
    then have "quote_unit c = [c]" by (simp add: quote_unit_def)
    with 9 show ?thesis by (simp add: lex_string_plain del: lex_string.simps)
  qed (simp_all add: quote_unit_def lex_string_escape unescape_def del: lex_string.simps)
qed

lemma lex_string_quote_units:
  "lex_string (quote_units s @ 0x22 # r) = Some (s, r)"
proof (induction s rule: quote_units.induct)
  case 1
  show ?case by simp
next
  case (2 c)
  have "lex_string (quote_unit c @ 0x22 # r) = cons_unit c (lex_string (0x22 # r))"
    by (rule lex_string_quote_unit)
  then show ?case by simp
next
  case (3 c d cs)
  show ?case
  proof (cases "is_lead c \<and> is_trail d")
    case True
    then have q: "quote_units (c # d # cs) = c # d # quote_units cs" by simp
    from True 3 have "lex_string (quote_units cs @ 0x22 # r) = Some (cs, r)" by simp
    with True show ?thesis
      by (simp add: q lex_string_surrogate del: lex_string.simps quote_units.simps)
  next
    case False
    then have q: "quote_units (c # d # cs) = quote_unit c @ quote_units (d # cs)" by auto
    from False 3 have "lex_string (quote_units (d # cs) @ 0x22 # r) = Some (d # cs, r)"
      by simp
    then show ?thesis
      by (simp add: q lex_string_quote_unit del: lex_string.simps quote_units.simps)
  qed
qed

lemma lex_string_QuoteJSONString:
  "\<exists>body. QuoteJSONString s = 0x22 # body \<and> lex_string (body @ r) = Some (s, r)"
  by (simp add: QuoteJSONString_def lex_string_quote_units)

subsection \<open>The tokens of a serialised list\<close>

lemma cons_token_Some [simp]: "cons_token t (Some ts) = Some (t # ts)"
  by (simp add: cons_token_def)

lemma lex_punct:
  "tokenize (0x7B # cs) = cons_token T_lbrace (tokenize cs)"
  "tokenize (0x7D # cs) = cons_token T_rbrace (tokenize cs)"
  "tokenize (0x5B # cs) = cons_token T_lbracket (tokenize cs)"
  "tokenize (0x5D # cs) = cons_token T_rbracket (tokenize cs)"
  "tokenize (0x2C # cs) = cons_token T_comma (tokenize cs)"
  "tokenize (0x3A # cs) = cons_token T_colon (tokenize cs)"
  by (simp_all add: tokenize.simps is_json_space_def)

lemma lex_literal:
  "tokenize (js ''true'' @ cs) = cons_token T_true (tokenize cs)"
  "tokenize (js ''false'' @ cs) = cons_token T_false (tokenize cs)"
  by (simp_all add: tokenize.simps is_json_space_def js_def)

lemma lex_QuoteJSONString:
  "tokenize (QuoteJSONString s @ cs) = cons_token (T_string s) (tokenize cs)"
  by (simp add: QuoteJSONString_def tokenize.simps is_json_space_def lex_string_quote_units)

lemma lex_stringify_task:
  "tokenize cs = Some ts \<Longrightarrow> tokenize (stringify_task t @ cs) = Some (task_tokens t @ ts)"
  by (simp add: stringify_task_def task_tokens_def lex_punct lex_literal lex_QuoteJSONString
        js_def [of "''{''"] js_def [of "'':''"] js_def [of "'',''"] js_def [of "''}''"])


lemma lex_join_comma:
  "tokenize cs = Some ts \<Longrightarrow>
   tokenize (join_comma (map stringify_task l) @ cs) = Some (list_tokens l @ ts)"
proof (induction l rule: list_tokens.induct)
  case 1
  then show ?case by simp
next
  case (2 t)
  then show ?case by (simp add: lex_stringify_task)
next
  case (3 t u l)
  then have "tokenize (0x2C # join_comma (map stringify_task (u # l)) @ cs)
               = Some (T_comma # list_tokens (u # l) @ ts)"
    by (simp add: lex_punct)
  from lex_stringify_task [OF this, of t] show ?case by simp
qed

lemma lex_JSON_stringify:
  "tokenize (JSON_stringify l) = Some (T_lbracket # list_tokens l @ [T_rbracket])"
proof -
  have "tokenize [0x5D] = Some [T_rbracket]"
    by (simp add: lex_punct tokenize.simps(1))
  from lex_join_comma [OF this, of l] show ?thesis
    by (simp add: JSON_stringify_def lex_punct)
qed

subsection \<open>The automaton on these tokens\<close>

lemma prun_append:
  "prun p (ts @ us) = (case prun p ts of None \<Rightarrow> None | Some p' \<Rightarrow> prun p' us)"
  by (induction ts arbitrary: p) (auto split: option.splits)

lemma prun_task_tokens:
  "prun (P_value stk) (task_tokens t) = Some (P_after (json_of_task t) stk)"
  by (simp add: task_tokens_def json_of_task_def)

lemma prun_list_tokens:
  "prun (P_value (F_arr es # stk)) (list_tokens (t # l) @ [T_rbracket])
     = Some (P_after (JArray (es @ map json_of_task (t # l))) stk)"
proof (induction l arbitrary: es t)
  case Nil
  show ?case by (simp add: prun_append prun_task_tokens)
next
  case (Cons u l)
  from Cons [of "es @ [json_of_task t]" u] show ?case
    by (simp add: prun_append prun_task_tokens)
qed

lemma prun_array:
  "prun (P_value []) (T_lbracket # list_tokens l @ [T_rbracket])
     = Some (P_after (json_of_tasks l) [])"
proof (cases l)
  case Nil
  then show ?thesis by (simp add: json_of_tasks_def)
next
  case (Cons t l')
  have "pstep (P_arr_open []) T_lbrace = pstep (P_value [F_arr []]) T_lbrace"
    by simp
  then have "prun (P_arr_open []) (list_tokens (t # l') @ [T_rbracket])
      = prun (P_value [F_arr []]) (list_tokens (t # l') @ [T_rbracket])"
    by (cases l') (simp_all add: task_tokens_def)
  with prun_list_tokens [of "[]" "[]" t l'] Cons show ?thesis
    by (simp add: json_of_tasks_def)
qed

lemma JSON_parse_stringify: "JSON_parse (JSON_stringify l) = Inr (json_of_tasks l)"
  by (simp add: JSON_parse_def lex_JSON_stringify prun_array del: prun.simps)

subsection \<open>Reading the value back as tasks\<close>

lemma prop_names:
  "js ''id'' \<noteq> js ''title''" "js ''id'' \<noteq> js ''completed''"
  "js ''title'' \<noteq> js ''completed''"
  by (simp_all add: js_def)

lemma as_task_json_of_task: "as_task (json_of_task t) = Some t"
  using prop_names by (cases t) (auto simp: json_of_task_def get_prop_def)

lemma those_map_Some: "those (map Some l) = Some l"
  by (induction l) simp_all

lemma as_tasks_json_of_tasks: "as_tasks (json_of_tasks l) = Some l"
  by (simp add: json_of_tasks_def comp_def those_map_Some as_task_json_of_task)

section \<open>Saving and loading\<close>

lemma JSON_parse_empty: "JSON_parse [] = Inl SyntaxError"
  by (simp add: JSON_parse_def tokenize.simps(1))

lemma JSON_stringify_nonempty: "JSON_stringify l \<noteq> []"
  by (simp add: JSON_stringify_def)

lemma loadData_tasks:
  "JSON_parse blob = Inr v \<Longrightarrow> as_tasks v = Some l \<Longrightarrow>
   loadData (Inr (Some blob)) st = Loaded (st\<lparr>tasks := l\<rparr>)"
  using JSON_parse_empty by (auto simp: loadData_def)

lemma loadData_SyntaxError:
  "JSON_parse blob = Inl e \<Longrightarrow> loadData (Inr (Some blob)) st = Loaded st"
  by (simp add: loadData_def)

text \<open>
  C8: the text that \<^verbatim>\<open>saveData\<close> writes for a task list parses back to the value of
  that list, which reads as the list itself, with every id, title and completed flag;
  so loading what was saved installs the saved list. This holds for every list, the
  empty one included.
\<close>

theorem save_load_roundtrip:
  "JSON_parse (JSON_stringify l) = Inr (json_of_tasks l) \<and>
   as_tasks (json_of_tasks l) = Some l \<and>
   loadData (getItem True (saveData True l s) STORAGE_KEY) st = Loaded (st\<lparr>tasks := l\<rparr>)"
proof -
  have "loadData (Inr (Some (JSON_stringify l))) st = Loaded (st\<lparr>tasks := l\<rparr>)"
    using JSON_parse_stringify as_tasks_json_of_tasks by (rule loadData_tasks)
  then show ?thesis
    by (simp add: JSON_parse_stringify as_tasks_json_of_tasks getItem_def saveData_def
        setItem_def)
qed

theorem save_load_roundtrip_witness:
  "loadData (getItem True (saveData True [] Map.empty) STORAGE_KEY) sample
     = Loaded (sample\<lparr>tasks := []\<rparr>) \<and>
   loadData (getItem True (saveData True [report, milk] Map.empty) STORAGE_KEY) initial
     = Loaded (initial\<lparr>tasks := [report, milk]\<rparr>)"
  using save_load_roundtrip [of "[]" Map.empty sample]
    save_load_roundtrip [of "[report, milk]" Map.empty initial]
  by (intro conjI) (erule conjE, erule conjE, assumption)+

text \<open>
  What \<^verbatim>\<open>loadData\<close> recovers from: when \<^verbatim>\<open>getItem\<close> rejects with
  \<open>StorageUnavailable\<close>, when the key is absent, or when \<^verbatim>\<open>JSON.parse\<close> throws on the
  stored text, it returns normally with the state unchanged, so at start-up the list
  stays empty; the error goes nowhere and nothing is tried again. When the stored text
  parses to a task list, that list is installed.
\<close>

lemma loadData_recovers:
  "loadData (getItem False s STORAGE_KEY) initial = Loaded initial \<and>
   loadData (Inl StorageUnavailable) initial = Loaded initial \<and>
   loadData (Inr None) initial = Loaded initial \<and>
   (JSON_parse blob = Inl SyntaxError \<longrightarrow> loadData (Inr (Some blob)) initial = Loaded initial) \<and>
   tasks initial = [] \<and>
   (JSON_parse blob = Inr v \<and> as_tasks v = Some l \<longrightarrow>
      loadData (Inr (Some blob)) initial = Loaded (initial\<lparr>tasks := l\<rparr>))"
  by (simp add: loadData_tasks loadData_SyntaxError)
     (simp add: loadData_def getItem_def initial_def)

lemma tokenize_garbage: "tokenize (js ''{oops'') = None"
  by (simp add: js_def tokenize.simps is_json_space_def is_digit_def cons_token_def)

lemma loadData_garbage: "loadData (Inr (Some (js ''{oops''))) initial = Loaded initial"
  by (rule loadData_SyntaxError [of _ SyntaxError]) (simp add: JSON_parse_def tokenize_garbage)

text \<open>
  What it does not recover from: a stored text that is valid JSON for a value that is no
  task list. \<^verbatim>\<open>JSON.parse\<close> returns the value, nothing is thrown, and
  \<^verbatim>\<open>setTasks\<close> installs it without a look at its shape.
\<close>

lemma loadData_ill_typed:
  "JSON_parse blob = Inr v \<Longrightarrow> as_tasks v = None \<Longrightarrow> loadData (Inr (Some blob)) st = Ill_typed v"
  using JSON_parse_empty by (auto simp: loadData_def)

lemma JSON_parse_null: "JSON_parse (js ''null'') = Inr JNull"
  by (simp add: JSON_parse_def js_def tokenize.simps is_json_space_def)

lemma JSON_parse_empty_object: "JSON_parse (js ''{}'') = Inr (JObject [])"
  by (simp add: JSON_parse_def js_def tokenize.simps is_json_space_def)

lemma loadData_empty_object:
  "loadData (Inr (Some (js ''{}''))) initial = Ill_typed (JObject [])"
  by (rule loadData_ill_typed [OF JSON_parse_empty_object]) (simp add: get_prop_def)

text \<open>
  C7: the fall-back to the empty list holds for a rejected \<^verbatim>\<open>getItem\<close> and for a text
  that \<^verbatim>\<open>JSON.parse\<close> rejects (\<open>loadData_recovers\<close>), but not for every stored text
  that is no serialised task list. For the stored text \<^verbatim>\<open>null\<close> the parse succeeds
  with the value \<^verbatim>\<open>null\<close>, which is no task list, and \<^verbatim>\<open>loadData\<close> installs it:
  the state is then not the empty list, nor any list, and the next render evaluates
  \<^verbatim>\<open>tasks.length\<close> on it outside of any \<^verbatim>\<open>try\<close>.
\<close>

theorem loadData_null:
  "JSON_parse (js ''null'') = Inr JNull \<and> as_tasks JNull = None \<and>
   loadData (Inr (Some (js ''null''))) initial = Ill_typed JNull \<and>
   loadData (Inr (Some (js ''null''))) initial \<noteq> Loaded initial"
proof -
  have a: "as_tasks JNull = None" by simp
  from loadData_ill_typed [OF JSON_parse_null a, of initial] JSON_parse_null a
  show ?thesis by simp
qed

section \<open>The filter\<close>

lemma loadData_filter_st: "loadData r st = Loaded st' \<Longrightarrow> filter_st st' = filter_st st"
  by (auto simp: loadData_def split: sum.splits option.splits if_splits)

text \<open>
  C9: \<^verbatim>\<open>filteredTasks\<close> is a function of the state that returns the stored list under
  the filter \<open>all\<close>, its tasks that are not completed under \<open>active\<close> and its completed
  tasks under \<open>completed\<close>. \<^verbatim>\<open>setFilter\<close> changes the filter and neither the list nor
  the input field; what is written to the storage does not depend on the filter, and a
  load never sets it.
\<close>

theorem filteredTasks_spec:
  "(filter_st st = F_all \<longrightarrow> filteredTasks st = tasks st) \<and>
   (filter_st st = F_active \<longrightarrow>
      filteredTasks st = filter (\<lambda>task. \<not> completed task) (tasks st)) \<and>
   (filter_st st = F_completed \<longrightarrow>
      filteredTasks st = filter (\<lambda>task. completed task) (tasks st)) \<and>
   tasks (setFilter f st) = tasks st \<and>
   inputValue (setFilter f st) = inputValue st \<and>
   filter_st (setFilter f st) = f \<and>
   persist reachable (setFilter f st) s = persist reachable st s \<and>
   (loadData r st = Loaded st' \<longrightarrow> filter_st st' = filter_st st)"
  by (simp add: filteredTasks_def setFilter_def persist_def loadData_filter_st)

theorem filteredTasks_spec_witness:
  "filter_st sample = F_completed \<and> filteredTasks sample = [milk] \<and>
   filter_st (setFilter F_active sample) = F_active \<and>
   filteredTasks (setFilter F_active sample) = [report] \<and>
   filter_st (setFilter F_all sample) = F_all \<and>
   filteredTasks (setFilter F_all sample) = [report, milk] \<and>
   tasks (setFilter F_active sample) = [report, milk] \<and>
   persist True (setFilter F_active sample) Map.empty = persist True sample Map.empty"
proof -
  have t: "tasks sample = [report, milk]" and f: "filter_st sample = F_completed"
    by (simp_all add: sample_def)
  have c: "completed milk" "\<not> completed report" by (simp_all add: milk_def report_def)
  have s: "tasks (setFilter g sample) = [report, milk]" "filter_st (setFilter g sample) = g" for g
    by (simp_all add: setFilter_def t)
  from filteredTasks_spec [of sample] f
  have 1: "filteredTasks sample = [milk]" by (simp add: t c)
  from filteredTasks_spec [of "setFilter F_active sample"]
  have 2: "filteredTasks (setFilter F_active sample) = [report]" by (simp add: s c)
  from filteredTasks_spec [of "setFilter F_all sample"]
  have 3: "filteredTasks (setFilter F_all sample) = [report, milk]" by (simp add: s)
  from filteredTasks_spec [of sample F_active True Map.empty]
  have 4: "persist True (setFilter F_active sample) Map.empty = persist True sample Map.empty"
    by blast
  from f 1 s(2) [of F_active] 2 s(2) [of F_all] 3 s(1) [of F_active] 4
  show ?thesis by (intro conjI)
qed

section \<open>Uniqueness of the ids\<close>

subsection \<open>The decimal rendering of the clock is injective\<close>

lemma digit_inj: "a < 10 \<Longrightarrow> b < 10 \<Longrightarrow> digit a = digit b \<Longrightarrow> a = b"
proof -
  assume a: "a < 10" and b: "b < 10" and e: "digit a = digit b"
  from e have "(of_nat a :: 16 word) = of_nat b" by (simp add: digit_def)
  then have "unat (of_nat a :: 16 word) = unat (of_nat b :: 16 word)" by simp
  moreover from a have "unat (of_nat a :: 16 word) = a" by (simp add: unat_of_nat)
  moreover from b have "unat (of_nat b :: 16 word) = b" by (simp add: unat_of_nat)
  ultimately show ?thesis by simp
qed

lemma digit_not_minus: "d < 10 \<Longrightarrow> digit d \<noteq> 0x2D"
proof
  assume d: "d < 10" and e: "digit d = 0x2D"
  from d have u: "unat (of_nat d :: 16 word) = d" by (simp add: unat_of_nat)
  from e have "unat (digit d) = unat (0x2D :: 16 word)" by (rule arg_cong)
  moreover from d u have "unat (digit d) = 48 + d"
    by (simp add: digit_def unat_word_ariths)
  ultimately show False by simp
qed

lemma decimal_nonempty: "decimal n \<noteq> []" "[] \<noteq> decimal n"
  by (subst decimal.simps, simp)+

lemma decimal_small: "n < 10 \<Longrightarrow> decimal n = [digit n]"
  by (subst decimal.simps) simp

lemma decimal_large: "\<not> n < 10 \<Longrightarrow> decimal n = decimal (n div 10) @ [digit (n mod 10)]"
  by (subst decimal.simps) simp

lemma decimal_hd: "\<exists>d < 10. hd (decimal n) = digit d"
proof (induction n rule: decimal.induct)
  case (1 n)
  show ?case
  proof (cases "n < 10")
    case True
    then show ?thesis by (auto simp: decimal_small)
  next
    case False
    with 1 show ?thesis by (simp add: decimal_large decimal_nonempty)
  qed
qed

lemma decimal_inj: "decimal n = decimal m \<Longrightarrow> n = m"
proof (induction n arbitrary: m rule: decimal.induct)
  case (1 n)
  show ?case
  proof (cases "n < 10")
    case n: True
    show ?thesis
    proof (cases "m < 10")
      case True
      with n "1.prems" show ?thesis by (simp add: decimal_small digit_inj)
    next
      case False
      with n "1.prems" show ?thesis
        by (simp add: decimal_small decimal_large decimal_nonempty)
    qed
  next
    case n: False
    show ?thesis
    proof (cases "m < 10")
      case True
      with n "1.prems" show ?thesis
        by (simp add: decimal_small decimal_large decimal_nonempty)
    next
      case False
      with n "1.prems" have "decimal (n div 10) = decimal (m div 10)"
        and "digit (n mod 10) = digit (m mod 10)"
        by (simp_all add: decimal_large)
      with "1.IH" [OF n] have "n div 10 = m div 10" and "n mod 10 = m mod 10"
        by (auto intro: digit_inj)
      then show ?thesis by (metis div_mult_mod_eq)
    qed
  qed
qed

lemma decimal_not_minus: "decimal n \<noteq> 0x2D # s"
proof
  assume e: "decimal n = 0x2D # s"
  obtain d where "d < 10" "hd (decimal n) = digit d" using decimal_hd by blast
  with e show False using digit_not_minus by simp
qed

lemma Number_toString_inj: "Number_toString a = Number_toString b \<Longrightarrow> a = b"
proof -
  assume e: "Number_toString a = Number_toString b"
  consider "a < 0" "b < 0" | "a < 0" "\<not> b < 0" | "\<not> a < 0" "b < 0" | "\<not> a < 0" "\<not> b < 0"
    by blast
  then show ?thesis
  proof cases
    case 1
    with e have "nat (- a) = nat (- b)" by (simp add: Number_toString_def decimal_inj)
    with 1 show ?thesis by simp
  next
    case 2
    with e decimal_not_minus [of "nat b" "decimal (nat (- a))"] show ?thesis
      by (simp add: Number_toString_def)
  next
    case 3
    with e decimal_not_minus [of "nat a" "decimal (nat (- b))"] show ?thesis
      by (simp add: Number_toString_def)
  next
    case 4
    with e have "nat a = nat b" by (simp add: Number_toString_def decimal_inj)
    with 4 show ?thesis by simp
  qed
qed

subsection \<open>Runs without collisions\<close>

lemma toggle_ids:
  "map id_item (map (\<lambda>task. if id_item task = i
                             then task\<lparr>completed := \<not> completed task\<rparr> else task) l)
   = map id_item l"
  by (induction l) simp_all

lemma toggleTask_ids: "map id_item (tasks (toggleTask i st)) = map id_item (tasks st)"
  by (simp add: toggleTask_def toggle_ids del: map_map)

lemma addTask_distinct:
  assumes "distinct (map id_item (tasks st))"
  shows "distinct (map id_item (tasks (addTask now st)))
     \<longleftrightarrow> trim (inputValue st) = [] \<or> Number_toString now \<notin> id_item ` set (tasks st)"
  using assms by (simp add: addTask_def Let_def)

lemma unique_along_start: "unique_along as st \<Longrightarrow> distinct (map id_item (tasks st))"
  by (cases as) simp_all

text \<open>
  Every handler but \<^verbatim>\<open>addTask\<close> keeps pairwise different ids pairwise different, so
  a run keeps its ids unique exactly when it is free of collisions.
\<close>

lemma unique_along_iff:
  "distinct (map id_item (tasks st)) \<Longrightarrow> unique_along as st \<longleftrightarrow> collision_free as st"
proof (induction as arbitrary: st)
  case Nil
  then show ?case by simp
next
  case (Cons a as)
  note d = Cons.prems
  show ?case
  proof (cases a)
    case (Hydrate r)
    show ?thesis
    proof (cases "loadData r st")
      case (Loaded st')
      show ?thesis
      proof (cases "distinct (map id_item (tasks st'))")
        case True
        from Cons.IH [OF True] d Hydrate Loaded True show ?thesis by simp
      next
        case False
        with unique_along_start [of as st'] have "\<not> unique_along as st'" by blast
        with d Hydrate Loaded False show ?thesis by simp
      qed
    next
      case (Ill_typed v)
      with d Hydrate show ?thesis by simp
    qed
  next
    case (SetInputValue s)
    from d have "distinct (map id_item (tasks (setInputValue s st)))"
      by (simp add: setInputValue_def)
    from Cons.IH [OF this] d SetInputValue show ?thesis by simp
  next
    case (AddTask now)
    show ?thesis
    proof (cases "distinct (map id_item (tasks (addTask now st)))")
      case True
      from Cons.IH [OF True] d AddTask True addTask_distinct [OF d, of now]
      show ?thesis by simp
    next
      case False
      with unique_along_start [of as "addTask now st"]
      have "\<not> unique_along as (addTask now st)" by blast
      with d AddTask False addTask_distinct [OF d, of now] show ?thesis by simp
    qed
  next
    case (ToggleTask i)
    from d have "distinct (map id_item (tasks (toggleTask i st)))"
      by (simp only: toggleTask_ids)
    from Cons.IH [OF this] d ToggleTask show ?thesis by simp
  next
    case (DeleteTask i)
    from d have "distinct (map id_item (tasks (deleteTask i st)))"
      by (simp add: deleteTask_def distinct_map_filter)
    from Cons.IH [OF this] d DeleteTask show ?thesis by simp
  next
    case ClearCompleted
    from d have "distinct (map id_item (tasks (clearCompleted st)))"
      by (simp add: clearCompleted_def distinct_map_filter)
    from Cons.IH [OF this] d ClearCompleted show ?thesis by simp
  next
    case (SetFilter f)
    from d have "distinct (map id_item (tasks (setFilter f st)))"
      by (simp add: setFilter_def)
    from Cons.IH [OF this] d SetFilter show ?thesis by simp
  qed
qed

lemma unique_along_end:
  "unique_along as st \<Longrightarrow> run as st = Loaded st' \<Longrightarrow> distinct (map id_item (tasks st'))"
proof (induction as arbitrary: st)
  case Nil
  then show ?case by simp
next
  case (Cons a as)
  then show ?case by (cases "step a st") auto
qed

text \<open>
  C1, as amended: along a run from the empty initial state the ids of the task list
  are pairwise different in every state reached if and only if the run is free of
  collisions, that is, every \<^verbatim>\<open>addTask\<close> that creates a task reads a clock value whose
  decimal rendering is not the id of a task then in the list, and every load leaves a
  list with pairwise different ids; the state such a run ends in has pairwise different
  ids. Toggling, deleting, clearing, typing and filtering put no condition on the run.
  Tasks created at different clock readings get different ids.
\<close>

theorem ids_unique_iff_collision_free:
  "(unique_along as initial \<longleftrightarrow> collision_free as initial) \<and>
   (collision_free as initial \<and> run as initial = Loaded st' \<longrightarrow>
      distinct (map id_item (tasks st'))) \<and>
   (a \<noteq> b \<longrightarrow> Number_toString a \<noteq> Number_toString b)"
proof -
  have d: "distinct (map id_item (tasks initial))" by (simp add: initial_def)
  note u = unique_along_iff [OF d, of as]
  have "distinct (map id_item (tasks st'))"
    if "collision_free as initial" and "run as initial = Loaded st'"
    using that u unique_along_end by blast
  moreover have "Number_toString a \<noteq> Number_toString b" if "a \<noteq> b"
    using that Number_toString_inj by blast
  ultimately show ?thesis using u by blast
qed

text \<open>Evaluation of the sample sessions.\<close>

lemma stamps:
  "Number_toString 1700000000001 = js ''1700000000001''"
  "Number_toString 1700000000002 = js ''1700000000002''"
  by (simp_all add: Number_toString_def decimal.simps digit_def js_def)

lemma trims:
  "trim (js ''Buy milk'') = js ''Buy milk''"
  "trim (js '' Write report'') = js ''Write report''"
  "trim (js ''Write report'') = js ''Write report''"
  "trim (js ''Buy bread'') = js ''Buy bread''"
  "trim (js ''   '') = []"
  by (simp_all add: trim_def js_def is_trim_space_def)

lemma titles_nonempty:
  "js ''Buy milk'' \<noteq> []" "js ''Write report'' \<noteq> []" "js ''Buy bread'' \<noteq> []"
  by (simp_all add: js_def)

lemma stamps_differ:
  "js ''1700000000002'' \<noteq> js ''1700000000001''"
  "js ''1700000000001'' \<noteq> js ''1700000000002''"
  by (simp_all add: js_def)

lemma run_morning:
  "run morning initial = Loaded \<lparr>tasks = [report, milk], inputValue = [], filter_st = F_all\<rparr>"
  by (simp add: morning_def initial_def loadData_def setInputValue_def addTask_def
      toggleTask_def trims titles_nonempty stamps stamps_differ report_def milk_def)

lemma collision_free_morning: "collision_free morning initial"
  by (simp add: morning_def initial_def loadData_def setInputValue_def
      addTask_def trims titles_nonempty stamps stamps_differ)

lemma run_clock_set_back:
  "run clock_set_back initial = Loaded \<lparr>tasks = [bread, report], inputValue = [], filter_st = F_all\<rparr>"
  by (simp add: clock_set_back_def initial_def setInputValue_def addTask_def
      trims titles_nonempty stamps bread_def report_def)

lemma collision_free_clock_set_back: "collision_free clock_set_back initial"
  by (simp add: clock_set_back_def initial_def setInputValue_def
      addTask_def trims titles_nonempty stamps stamps_differ)

theorem ids_unique_iff_collision_free_witness:
  "collision_free morning initial \<and> unique_along morning initial \<and>
   run morning initial = Loaded \<lparr>tasks = [report, milk], inputValue = [], filter_st = F_all\<rparr> \<and>
   distinct (map id_item [report, milk]) \<and>
   collision_free clock_set_back initial \<and> unique_along clock_set_back initial \<and>
   run clock_set_back initial
     = Loaded \<lparr>tasks = [bread, report], inputValue = [], filter_st = F_all\<rparr> \<and>
   distinct (map id_item [bread, report]) \<and>
   (1700000000001 :: int) \<noteq> 1700000000002 \<and>
   Number_toString 1700000000001 \<noteq> Number_toString 1700000000002"
proof -
  note m = ids_unique_iff_collision_free
    [of morning "\<lparr>tasks = [report, milk], inputValue = [], filter_st = F_all\<rparr>"
        1700000000001 1700000000002]
  note s = ids_unique_iff_collision_free
    [of clock_set_back "\<lparr>tasks = [bread, report], inputValue = [], filter_st = F_all\<rparr>"
        1700000000001 1700000000002]
  have n: "(1700000000001 :: int) \<noteq> 1700000000002" by simp
  from m collision_free_morning have 1: "unique_along morning initial" by blast
  from m collision_free_morning run_morning
  have 2: "distinct (map id_item [report, milk])" by simp
  from s collision_free_clock_set_back have 3: "unique_along clock_set_back initial" by blast
  from s collision_free_clock_set_back run_clock_set_back
  have 4: "distinct (map id_item [bread, report])" by simp
  from m n have 5: "Number_toString 1700000000001 \<noteq> Number_toString 1700000000002" by blast
  from collision_free_morning 1 run_morning 2 collision_free_clock_set_back 3
    run_clock_set_back 4 n 5
  show ?thesis by (intro conjI)
qed

text \<open>
  C1 as stated fails: the id is the clock reading in milliseconds, so two additions
  within the same millisecond yield two tasks with the same id.
\<close>

theorem ids_collide:
  "run same_millisecond initial = Loaded twins \<and> \<not> distinct (map id_item (tasks twins))"
  by (simp add: same_millisecond_def initial_def twins_def setInputValue_def addTask_def
      toggleTask_def trims titles_nonempty stamps bread_def milk_def)

section \<open>The statistics\<close>

subsection \<open>The counts\<close>

lemma stats_sum: "activeCount st + completedCount st = totalCount st"
  by (simp add: activeCount_def)

lemma stats_bounds:
  "0 \<le> completedCount st \<and> completedCount st \<le> totalCount st \<and> 0 \<le> activeCount st"
  by (simp add: activeCount_def completedCount_def totalCount_def)

lemma completionRate_empty: "totalCount st = 0 \<Longrightarrow> completionRate st = 0"
  by (simp add: completionRate_def)

subsection \<open>The rounding of \<open>fl\<close>\<close>

text \<open>
  \<open>fl\<close> rounds to the nearest number with a 53-bit mantissa: the scaled quotient lies
  in \<open>[2 ^ 52, 2 ^ 53)\<close> and the mantissa is within one half of it.
\<close>

lemma bit_length_pos: "0 < n \<Longrightarrow> bit_length n = Suc (bit_length (n div 2))"
  by (subst bit_length.simps) simp

lemma bit_length_nonpos: "n \<le> 0 \<Longrightarrow> bit_length n = 0"
  by (subst bit_length.simps) simp

lemma bit_length_bounds:
  "0 < n \<Longrightarrow> (2::int) ^ (bit_length n - 1) \<le> n \<and> n < 2 ^ bit_length n"
proof (induction n rule: bit_length.induct)
  case (1 n)
  show ?case
  proof (cases "n = 1")
    case True
    then show ?thesis by (simp add: bit_length_pos bit_length_nonpos)
  next
    case False
    with "1.prems" have h: "0 < n div 2" by simp
    from "1.prems" have "\<not> n \<le> 0" by simp
    from "1.IH" [OF this h] have lo: "(2::int) ^ (bit_length (n div 2) - 1) \<le> n div 2"
      and hi: "n div 2 < 2 ^ bit_length (n div 2)" by simp_all
    from h have b: "bit_length (n div 2) = Suc (bit_length (n div 2) - 1)"
      by (simp add: bit_length_pos)
    have "(2::int) ^ bit_length (n div 2) = 2 * 2 ^ (bit_length (n div 2) - 1)"
      by (subst b) simp
    with lo have "(2::int) ^ bit_length (n div 2) \<le> 2 * (n div 2)" by linarith
    also have "\<dots> \<le> n" by simp
    finally have 1: "(2::int) ^ (bit_length n - 1) \<le> n"
      using "1.prems" by (simp add: bit_length_pos)
    from hi have "n div 2 + 1 \<le> 2 ^ bit_length (n div 2)" by simp
    then have "2 * (n div 2) + 2 \<le> 2 * 2 ^ bit_length (n div 2)" by simp
    moreover have "n \<le> 2 * (n div 2) + 1" by presburger
    ultimately have 2: "n < 2 ^ bit_length n"
      using "1.prems" by (simp add: bit_length_pos)
    from 1 2 show ?thesis ..
  qed
qed

lemma round_half_even_cases:
  "round_half_even n d = n div d \<and> 2 * (n mod d) \<le> d
   \<or> round_half_even n d = n div d + 1 \<and> d \<le> 2 * (n mod d)"
  unfolding round_half_even_def Let_def by auto

lemma round_half_even_error:
  assumes "0 < (d::int)"
  shows "2 * \<bar>round_half_even n d * d - n\<bar> \<le> d"
proof -
  let ?q = "n div d" and ?r = "n mod d"
  have r: "0 \<le> ?r" "?r < d" using assms by simp_all
  have q: "?q * d - n = - ?r" by (simp add: minus_mod_eq_div_mult [symmetric])
  have q1: "(?q + 1) * d - n = d - ?r"
    using q by (simp add: algebra_simps)
  from round_half_even_cases [of n d] show ?thesis
  proof
    assume "round_half_even n d = ?q \<and> 2 * ?r \<le> d"
    with q r show ?thesis by simp
  next
    assume "round_half_even n d = ?q + 1 \<and> d \<le> 2 * ?r"
    with q1 r show ?thesis by simp
  qed
qed

lemma round_half_even_lower:
  assumes "0 < (d::int)" and "a * d \<le> n"
  shows "a \<le> round_half_even n d"
proof -
  from assms have "a * d div d \<le> n div d" by (intro zdiv_mono1) simp_all
  with assms(1) have "a \<le> n div d" by simp
  with round_half_even_cases [of n d] show ?thesis by auto
qed

lemma round_half_even_upper:
  assumes "0 < (d::int)" and "n \<le> b * d"
  shows "round_half_even n d \<le> b"
proof (cases "n mod d = 0")
  case True
  then have "n = n div d * d" by (metis add.right_neutral div_mult_mod_eq)
  then have "n div d * d \<le> b * d" using assms(2) by simp
  with assms(1) have "n div d \<le> b" by (simp add: mult_le_cancel_right)
  moreover from True assms(1) have "round_half_even n d = n div d"
    by (simp add: round_half_even_def)
  ultimately show ?thesis by simp
next
  case False
  with assms(1) have "0 < n mod d" by (simp add: order_neq_le_trans)
  then have "n div d * d < n" by (simp add: minus_mod_eq_div_mult [symmetric])
  then have "n div d * d < b * d" using assms(2) by (rule less_le_trans)
  with assms(1) have "n div d < b" by (simp add: mult_less_cancel_right)
  with round_half_even_cases [of n d] show ?thesis by auto
qed


lemma bit_length_gt0: "0 < n \<Longrightarrow> 0 < bit_length n"
  by (simp add: bit_length_pos)

lemma bit_length_real:
  assumes "0 < n"
  shows "(2::real) powi (int (bit_length n) - 1) \<le> real_of_int n"
    and "real_of_int n < 2 powi int (bit_length n)"
proof -
  from bit_length_bounds [OF assms]
  have lo: "(2::int) ^ (bit_length n - 1) \<le> n" and hi: "n < 2 ^ bit_length n" by simp_all
  from bit_length_gt0 [OF assms] have "int (bit_length n) - 1 = int (bit_length n - 1)"
    by simp
  then have "(2::real) powi (int (bit_length n) - 1) = 2 ^ (bit_length n - 1)"
    by (simp only: power_int_of_nat)
  also have "\<dots> = real_of_int (2 ^ (bit_length n - 1))" by simp
  also from lo have "\<dots> \<le> real_of_int n" by (simp only: of_int_le_iff)
  finally show "(2::real) powi (int (bit_length n) - 1) \<le> real_of_int n" .
  from hi have "real_of_int n < real_of_int (2 ^ bit_length n)" by (simp only: of_int_less_iff)
  then show "real_of_int n < 2 powi int (bit_length n)" by (simp add: power_int_of_nat)
qed

lemma quotient_window:
  assumes "0 < n" and "0 < d"
  defines "k \<equiv> int (bit_length n) - int (bit_length d)"
  shows "(2::real) powi (k - 1) < real_of_int n / real_of_int d"
    and "real_of_int n / real_of_int d < 2 powi (k + 1)"
proof -
  let ?n = "real_of_int n" and ?d = "real_of_int d"
  let ?bn = "int (bit_length n)" and ?bd = "int (bit_length d)"
  from assms have pos: "0 < ?n" "0 < ?d" by simp_all
  note n = bit_length_real [OF assms(1)] and d = bit_length_real [OF assms(2)]
  have p: "0 < (2::real) powi j" for j by simp
  have e1: "k - 1 = (?bn - 1) - ?bd" and e2: "k + 1 = ?bn - (?bd - 1)"
    by (simp_all add: k_def)
  have "(2::real) powi (k - 1) = 2 powi (?bn - 1) / 2 powi ?bd"
    unfolding e1 by (rule power_int_diff) simp
  also have "\<dots> \<le> ?n / 2 powi ?bd" using n(1) p by (simp add: divide_right_mono)
  also have "\<dots> < ?n / ?d" using d(2) pos by (simp add: divide_strict_left_mono)
  finally show "(2::real) powi (k - 1) < ?n / ?d" .
  have "?n / ?d < 2 powi ?bn / ?d" using n(2) pos by (simp add: divide_strict_right_mono)
  also have "\<dots> \<le> 2 powi ?bn / 2 powi (?bd - 1)"
    using d(1) pos p by (simp add: divide_left_mono)
  also have "\<dots> = 2 powi (k + 1)"
    unfolding e2 by (rule power_int_diff [symmetric]) simp
  finally show "?n / ?d < 2 powi (k + 1)" .
qed

lemma powi_split: "(2::real) powi k = 2 ^ nat k / 2 ^ nat (- k)"
proof (cases "0 \<le> k")
  case True
  then show ?thesis by (simp add: power_int_def)
next
  case False
  then show ?thesis by (simp add: power_int_def field_simps)
qed

lemma fl_test:
  assumes "0 < n" and "0 < d"
  shows "(d * 2 ^ nat k \<le> n * 2 ^ nat (- k)) \<longleftrightarrow> (2::real) powi k \<le> real_of_int n / real_of_int d"
proof -
  have "(d * 2 ^ nat k \<le> n * 2 ^ nat (- k))
      \<longleftrightarrow> real_of_int (d * 2 ^ nat k) \<le> real_of_int (n * 2 ^ nat (- k))"
    by (simp only: of_int_le_iff)
  also have "\<dots> \<longleftrightarrow> real_of_int d * 2 ^ nat k \<le> real_of_int n * 2 ^ nat (- k)"
    by simp
  also have "\<dots> \<longleftrightarrow> 2 ^ nat k / 2 ^ nat (- k) \<le> real_of_int n / real_of_int d"
    using assms by (simp add: field_simps)
  finally show ?thesis by (simp add: powi_split)
qed


lemma fl_window:
  assumes "0 < n" and "0 < d"
  shows "(2::real) powi (expo (fl n d) + 52) \<le> real_of_int n / real_of_int d"
    and "real_of_int n / real_of_int d < 2 powi (expo (fl n d) + 53)"
proof -
  define k where "k = int (bit_length n) - int (bit_length d)"
  let ?q = "real_of_int n / real_of_int d"
  note w = quotient_window [OF assms, folded k_def]
  note t = fl_test [OF assms, of k]
  have e: "expo (fl n d) = (if 2 powi k \<le> ?q then k - 52 else k - 53)"
    using assms(1) t by (simp add: fl_def Let_def k_def)
  show "(2::real) powi (expo (fl n d) + 52) \<le> ?q"
  proof (cases "2 powi k \<le> ?q")
    case True
    with e show ?thesis by simp
  next
    case False
    with e have ee: "expo (fl n d) = k - 53" by simp
    from w(1) show ?thesis unfolding ee by simp
  qed
  show "?q < 2 powi (expo (fl n d) + 53)"
  proof (cases "2 powi k \<le> ?q")
    case True
    with e have ee: "expo (fl n d) = k - 52" by simp
    from w(2) show ?thesis unfolding ee by (simp add: add.commute)
  next
    case False
    with e show ?thesis by simp
  qed
qed

lemma fl_mant:
  "n \<noteq> 0 \<Longrightarrow>
   mant (fl n d) = round_half_even (n * 2 ^ nat (- expo (fl n d))) (d * 2 ^ nat (expo (fl n d)))"
  by (simp add: fl_def Let_def)

lemma fl_spec:
  assumes "0 < n" and "0 < d" and "n < 2 ^ 52 * d"
  shows "\<exists>E. expo (fl n d) = - int E \<and> 0 < E \<and>
           2 ^ 52 * d \<le> n * 2 ^ E \<and> n * 2 ^ E < 2 ^ 53 * d \<and>
           2 * \<bar>mant (fl n d) * d - n * 2 ^ E\<bar> \<le> d \<and>
           2 ^ 52 \<le> mant (fl n d) \<and> mant (fl n d) \<le> 2 ^ 53"
proof -
  let ?e = "expo (fl n d)"
  let ?q = "real_of_int n / real_of_int d"
  define E where "E = nat (- ?e)"
  from assms have pos: "0 < real_of_int n" "0 < real_of_int d" by simp_all
  note w = fl_window [OF assms(1,2)]
  from assms(3) have "real_of_int n < real_of_int (2 ^ 52 * d)" by (simp only: of_int_less_iff)
  with pos have q: "?q < 2 ^ 52" by (simp add: field_simps)
  have neg: "?e < 0"
  proof (rule ccontr)
    assume "\<not> ?e < 0"
    then have "(2::real) powi 52 \<le> 2 powi (?e + 52)"
      by (intro power_int_increasing) simp_all
    with w(1) q show False by simp
  qed
  then have e: "?e = - int E" and E: "0 < E" by (simp_all add: E_def)
  have pm: "(2::real) powi (- int E) = inverse (2 ^ E)"
    by (simp add: power_int_minus)
  have "(2::real) powi (- int E + 52) = 2 powi (- int E) * 2 powi 52"
    by (rule power_int_add) simp
  then have p52: "(2::real) powi (?e + 52) = 2 ^ 52 / 2 ^ E"
    unfolding e pm by (simp add: field_simps)
  have "(2::real) powi (- int E + 53) = 2 powi (- int E) * 2 powi 53"
    by (rule power_int_add) simp
  then have p53: "(2::real) powi (?e + 53) = 2 ^ 53 / 2 ^ E"
    unfolding e pm by (simp add: field_simps)
  from w(1) pos have "2 ^ 52 * real_of_int d \<le> real_of_int n * 2 ^ E"
    unfolding p52 by (simp add: field_simps)
  then have "real_of_int (2 ^ 52 * d) \<le> real_of_int (n * 2 ^ E)" by simp
  then have lo: "2 ^ 52 * d \<le> n * 2 ^ E" by (simp only: of_int_le_iff)
  from w(2) pos have "real_of_int n * 2 ^ E < 2 ^ 53 * real_of_int d"
    unfolding p53 by (simp add: field_simps)
  then have "real_of_int (n * 2 ^ E) < real_of_int (2 ^ 53 * d)" by simp
  then have hi: "n * 2 ^ E < 2 ^ 53 * d" by (simp only: of_int_less_iff)
  from neg have z: "nat ?e = 0" by simp
  from assms(1) have m: "mant (fl n d) = round_half_even (n * 2 ^ E) d"
    using fl_mant [of n d] by (simp add: z E_def)
  have err: "2 * \<bar>mant (fl n d) * d - n * 2 ^ E\<bar> \<le> d"
    unfolding m by (rule round_half_even_error [OF assms(2)])
  have ml: "2 ^ 52 \<le> mant (fl n d)"
    unfolding m using lo by (intro round_half_even_lower [OF assms(2)]) simp
  have mu: "mant (fl n d) \<le> 2 ^ 53"
    unfolding m using hi by (intro round_half_even_upper [OF assms(2)]) simp
  from e E lo hi err ml mu show ?thesis by blast
qed


subsection \<open>Where the computed rate is the rounded percentage\<close>

lemma ratio_error:
  fixes M N D P :: real
  assumes "0 < D" and "0 < P" and "2 * \<bar>M * D - N * P\<bar> \<le> D"
  shows "\<bar>M / P - N / D\<bar> \<le> 1 / (2 * P)"
proof -
  have "M / P - N / D = (M * D - N * P) / (P * D)"
    using assms(1,2) by (simp add: field_simps)
  then have "\<bar>M / P - N / D\<bar> = \<bar>M * D - N * P\<bar> / (P * D)"
    using assms(1,2) by (simp add: abs_mult)
  also have "\<dots> \<le> (D / 2) / (P * D)"
    using assms by (intro divide_right_mono) simp_all
  also have "\<dots> = 1 / (2 * P)" using assms(1,2) by simp
  finally show ?thesis .
qed

lemma int_window_div:
  fixes K m p :: int
  assumes "0 < p" and "(2 * K - 1) * p < 2 * m" and "2 * m < (2 * K + 1) * p"
  shows "(2 * m + p) div (2 * p) = K"
proof -
  from assms(2) have a: "K * (2 * p) \<le> 2 * m + p" by (simp add: algebra_simps)
  from assms(3) have b: "2 * m + p < (K + 1) * (2 * p)" by (simp add: algebra_simps)
  show ?thesis
  proof (rule int_div_pos_eq)
    show "2 * m + p = 2 * p * K + (2 * m + p - 2 * p * K)" by simp
    from a show "0 \<le> 2 * m + p - 2 * p * K" by (simp add: algebra_simps)
    from b show "2 * m + p - 2 * p * K < 2 * p" by (simp add: algebra_simps)
  qed
qed

lemma tri:
  fixes x v y :: real
  shows "\<bar>x - 100 * y\<bar> \<le> \<bar>x - 100 * v\<bar> + 100 * \<bar>v - y\<bar>"
  by (simp add: abs_if)

lemma fl_real:
  assumes "0 < n" and "0 < d" and "n < 2 ^ 52 * d"
  shows "\<exists>E. expo (fl n d) = - int E \<and>
           \<bar>real_of_int (mant (fl n d)) / 2 ^ E - real_of_int n / real_of_int d\<bar>
             \<le> 1 / (2 * 2 ^ E) \<and>
           2 ^ 52 / 2 ^ E \<le> real_of_int n / real_of_int d"
proof -
  from fl_spec [OF assms] obtain E where
    e: "expo (fl n d) = - int E" and lo: "2 ^ 52 * d \<le> n * 2 ^ E"
    and err: "2 * \<bar>mant (fl n d) * d - n * 2 ^ E\<bar> \<le> d"
    by blast
  from assms have pos: "0 < real_of_int d" by simp
  from err have "real_of_int (2 * \<bar>mant (fl n d) * d - n * 2 ^ E\<bar>) \<le> real_of_int d"
    by (simp only: of_int_le_iff)
  then have "2 * \<bar>real_of_int (mant (fl n d)) * real_of_int d - real_of_int n * 2 ^ E\<bar>
      \<le> real_of_int d" by simp
  with pos have 1: "\<bar>real_of_int (mant (fl n d)) / 2 ^ E - real_of_int n / real_of_int d\<bar>
      \<le> 1 / (2 * 2 ^ E)"
    by (intro ratio_error) simp_all
  from lo have "real_of_int (2 ^ 52 * d) \<le> real_of_int (n * 2 ^ E)"
    by (simp only: of_int_le_iff)
  then have "2 ^ 52 * real_of_int d \<le> real_of_int n * 2 ^ E" by simp
  with pos have 2: "2 ^ 52 / 2 ^ E \<le> real_of_int n / real_of_int d"
    by (simp add: field_simps)
  from e 1 2 show ?thesis by blast
qed

lemma Math_round_neg:
  "expo x = - int E \<Longrightarrow> Math_round x = (2 * mant x + 2 ^ E) div (2 * 2 ^ E)"
  by (simp add: Math_round_def)

lemma rate_zero: "Math_round (Number_times (Number_div 0 t) 100) = 0"
  by (simp add: Math_round_def Number_times_def Number_div_def fl_def)

lemma quotient_mant_le:
  assumes "0 < t" and "c \<le> t" and "2 * \<bar>m * t - c * 2 ^ E\<bar> \<le> (t::int)"
  shows "m \<le> 2 ^ E"
proof -
  from assms(3) have "2 * (m * t) \<le> 2 * (c * 2 ^ E) + t"
    by (simp add: abs_if split: if_splits)
  also from assms(2) have "\<dots> \<le> 2 * (t * 2 ^ E) + t" by (simp add: mult_right_mono)
  finally have "2 * m * t \<le> (2 * 2 ^ E + 1) * t" by (simp add: algebra_simps)
  with assms(1) have "2 * m \<le> 2 * 2 ^ E + 1" by (simp add: mult_le_cancel_right)
  then show ?thesis by simp
qed

lemma inv_pow_le:
  fixes q :: real
  assumes "2 ^ 52 / 2 ^ E \<le> q" and "q \<le> b"
  shows "1 / 2 ^ E \<le> b / 2 ^ 52"
proof -
  from assms have "2 ^ 52 / 2 ^ E \<le> b" by simp
  then show ?thesis by (simp add: field_simps)
qed


lemma product_close:
  fixes x v q :: real
  assumes v: "\<bar>v - q\<bar> \<le> 1 / (2 * 2 ^ E1)" and q: "2 ^ 52 / 2 ^ E1 \<le> q" "q \<le> 1"
    and x: "\<bar>x - 100 * v\<bar> \<le> 1 / (2 * 2 ^ E2)" and p: "2 ^ 52 / 2 ^ E2 \<le> 100 * v"
  shows "\<bar>x - 100 * q\<bar> \<le> 201 / 2 ^ 53"
proof -
  from inv_pow_le [OF q] have "1 / (2 * 2 ^ E1) \<le> (1 / 2 ^ 53 :: real)" by simp
  with v have v': "\<bar>v - q\<bar> \<le> 1 / 2 ^ 53" by linarith
  then have "v - q \<le> 1 / 2 ^ 53" by (simp only: abs_le_iff)
  with q(2) have "100 * v \<le> 101" by simp
  from inv_pow_le [OF p this] have "1 / (2 * 2 ^ E2) \<le> (101 / 2 ^ 53 :: real)" by simp
  with x have x': "\<bar>x - 100 * v\<bar> \<le> 101 / 2 ^ 53" by linarith
  from tri [of x q v] v' x' show ?thesis by simp
qed

lemma exact_margin:
  assumes t: "0 < t" "t < 2 ^ 32" and rK: "200 * c + t = 2 * t * K + r"
    and r: "1 \<le> r" "r \<le> 2 * t - 1"
  shows "real_of_int K - 1 / 2 + 1 / 2 ^ 33 < 100 * real_of_int c / real_of_int t"
    and "100 * real_of_int c / real_of_int t < real_of_int K + 1 / 2 - 1 / 2 ^ 33"
proof -
  let ?t = "real_of_int t" and ?c = "real_of_int c" and ?r = "real_of_int r"
  from t have tp: "0 < ?t" by simp
  from t(2) have "?t < real_of_int (2 ^ 32)" by (simp only: of_int_less_iff)
  then have "?t < 2 ^ 32" by simp
  with tp have margin: "1 / 2 ^ 33 < 1 / (2 * ?t)" by (simp add: field_simps)
  from rK have "real_of_int (200 * c + t) = real_of_int (2 * t * K + r)" by simp
  then have "200 * ?c + ?t = 2 * ?t * real_of_int K + ?r" by simp
  with tp have y: "100 * ?c / ?t = real_of_int K - 1 / 2 + ?r / (2 * ?t)"
    by (simp add: field_simps)
  from r(1) have "1 \<le> ?r" by simp
  with tp have lo: "1 / (2 * ?t) \<le> ?r / (2 * ?t)" by (simp add: divide_right_mono)
  from r(2) have "?r \<le> real_of_int (2 * t - 1)" by (simp only: of_int_le_iff)
  then have "?r \<le> 2 * ?t - 1" by simp
  with tp have "?r / (2 * ?t) \<le> (2 * ?t - 1) / (2 * ?t)" by (simp add: divide_right_mono)
  also from tp have "\<dots> = 1 - 1 / (2 * ?t)" by (simp add: field_simps)
  finally have hi: "?r / (2 * ?t) \<le> 1 - 1 / (2 * ?t)" .
  from y lo margin show "real_of_int K - 1 / 2 + 1 / 2 ^ 33 < 100 * ?c / ?t" by linarith
  from y hi margin show "100 * ?c / ?t < real_of_int K + 1 / 2 - 1 / 2 ^ 33" by linarith
qed

lemma window_to_int:
  assumes "real_of_int K - 1 / 2 < real_of_int m / 2 ^ E"
    and "real_of_int m / 2 ^ E < real_of_int K + 1 / 2"
  shows "(2 * K - 1) * 2 ^ E < 2 * m" and "2 * m < (2 * K + 1) * 2 ^ E"
proof -
  have p: "0 < (2::real) ^ E" by simp
  from assms(1) p have "(real_of_int K - 1 / 2) * 2 ^ E < real_of_int m"
    by (simp add: field_simps)
  then have "real_of_int ((2 * K - 1) * 2 ^ E) < real_of_int (2 * m)"
    by (simp add: algebra_simps)
  then show "(2 * K - 1) * 2 ^ E < 2 * m" by (simp only: of_int_less_iff)
  from assms(2) p have "real_of_int m < (real_of_int K + 1 / 2) * 2 ^ E"
    by (simp add: field_simps)
  then have "real_of_int (2 * m) < real_of_int ((2 * K + 1) * 2 ^ E)"
    by (simp add: algebra_simps)
  then show "2 * m < (2 * K + 1) * 2 ^ E" by (simp only: of_int_less_iff)
qed


lemma rate_exact:
  assumes c: "0 < c" "c \<le> t" and t: "t < 2 ^ 32"
    and nt: "(200 * c + t) mod (2 * t) \<noteq> 0"
  shows "Math_round (Number_times (Number_div c t) 100) = (200 * c + t) div (2 * t)"
proof -
  from c have tpos: "0 < t" by simp
  define K where "K = (200 * c + t) div (2 * t)"
  define r where "r = (200 * c + t) mod (2 * t)"
  have rK: "200 * c + t = 2 * t * K + r" by (simp add: K_def r_def)
  from tpos have "0 \<le> r" "r < 2 * t" by (simp_all add: r_def)
  moreover from nt have "r \<noteq> 0" by (simp add: r_def)
  ultimately have r: "1 \<le> r" "r \<le> 2 * t - 1" by linarith+
  note y = exact_margin [OF tpos t rK r]
  \<comment> \<open>the quotient\<close>
  define m1 where "m1 = mant (fl c t)"
  from c have "1 * c < 2 ^ 52 * t" by (intro mult_less_le_imp_less) simp_all
  then have b1: "c < 2 ^ 52 * t" by simp
  from fl_spec [OF c(1) tpos b1] obtain E1' where
    "expo (fl c t) = - int E1'" and err1: "2 * \<bar>m1 * t - c * 2 ^ E1'\<bar> \<le> t"
    and m1: "2 ^ 52 \<le> m1"
    unfolding m1_def by blast
  from fl_real [OF c(1) tpos b1] obtain E1 where
    e1: "expo (fl c t) = - int E1"
    and a1: "\<bar>real_of_int m1 / 2 ^ E1 - real_of_int c / real_of_int t\<bar> \<le> 1 / (2 * 2 ^ E1)"
    and l1: "2 ^ 52 / 2 ^ E1 \<le> real_of_int c / real_of_int t"
    unfolding m1_def by blast
  from e1 \<open>expo (fl c t) = - int E1'\<close> have "E1' = E1" by simp
  with err1 have err1: "2 * \<bar>m1 * t - c * 2 ^ E1\<bar> \<le> t" by simp
  from c tpos have q1: "real_of_int c / real_of_int t \<le> 1" by simp
  \<comment> \<open>the product\<close>
  have x2: "Number_times (Number_div c t) 100 = fl (m1 * 100) (2 ^ E1)"
    by (simp add: Number_times_def Number_div_def m1_def e1)
  define m2 where "m2 = mant (fl (m1 * 100) (2 ^ E1))"
  from m1 have n2: "0 < m1 * 100" by simp
  have d2: "0 < (2::int) ^ E1" by simp
  from quotient_mant_le [OF tpos c(2) err1] have "m1 * 100 \<le> 2 ^ E1 * 100" by simp
  also have "\<dots> < 2 ^ 52 * (2::int) ^ E1" by simp
  finally have b2: "m1 * 100 < 2 ^ 52 * 2 ^ E1" .
  from fl_real [OF n2 d2 b2] obtain E2 where
    e2: "expo (fl (m1 * 100) (2 ^ E1)) = - int E2"
    and a2: "\<bar>real_of_int m2 / 2 ^ E2 - real_of_int (m1 * 100) / real_of_int (2 ^ E1)\<bar>
               \<le> 1 / (2 * 2 ^ E2)"
    and l2: "2 ^ 52 / 2 ^ E2 \<le> real_of_int (m1 * 100) / real_of_int (2 ^ E1)"
    unfolding m2_def by blast
  have v: "real_of_int (m1 * 100) / real_of_int (2 ^ E1) = 100 * (real_of_int m1 / 2 ^ E1)"
    by simp
  from product_close [OF a1 l1 q1 a2 [unfolded v] l2 [unfolded v]]
  have close: "\<bar>real_of_int m2 / 2 ^ E2 - 100 * (real_of_int c / real_of_int t)\<bar>
      \<le> 201 / 2 ^ 53" .
  have small: "(201 / 2 ^ 53 :: real) < 1 / 2 ^ 33" by simp
  from close have "100 * (real_of_int c / real_of_int t) - 201 / 2 ^ 53 \<le> real_of_int m2 / 2 ^ E2"
    and "real_of_int m2 / 2 ^ E2 \<le> 100 * (real_of_int c / real_of_int t) + 201 / 2 ^ 53"
    by (simp_all only: abs_le_iff) linarith+
  with y small have "real_of_int K - 1 / 2 < real_of_int m2 / 2 ^ E2"
    and "real_of_int m2 / 2 ^ E2 < real_of_int K + 1 / 2"
    by simp_all
  from window_to_int [OF this] have "(2 * m2 + 2 ^ E2) div (2 * 2 ^ E2) = K"
    by (intro int_window_div) simp_all
  then show ?thesis
    unfolding x2 using Math_round_neg [OF e2] by (simp add: m2_def K_def)
qed

text \<open>
  For a list of fewer than \<open>2 ^ 32\<close> tasks the computed rate is the rounded percentage
  whenever the percentage does not lie exactly halfway between two integers: the two
  roundings move the product by less than \<open>2 ^ - 45\<close>, and a percentage that is no tie
  keeps a distance of at least \<open>1 / (2 * total)\<close> from the halves.
\<close>

lemma completionRate_off_ties:
  assumes "totalCount st < 2 ^ 32"
    and "totalCount st = 0 \<or> (200 * completedCount st + totalCount st) mod (2 * totalCount st) \<noteq> 0"
  shows "completionRate st = spec_completionRate st"
proof (cases "totalCount st = 0")
  case True
  then show ?thesis by (simp add: completionRate_def spec_completionRate_def)
next
  case t: False
  with assms(2) have nt: "(200 * completedCount st + totalCount st) mod (2 * totalCount st) \<noteq> 0"
    by simp
  have b: "0 \<le> completedCount st" "completedCount st \<le> totalCount st"
    by (simp_all add: completedCount_def totalCount_def)
  show ?thesis
  proof (cases "completedCount st = 0")
    case True
    from t b have "0 < totalCount st" by simp
    then have "totalCount st div (2 * totalCount st) = 0" by simp
    with True t show ?thesis
      by (simp add: completionRate_def spec_completionRate_def rate_zero)
  next
    case False
    with b have "0 < completedCount st" by simp
    from rate_exact [OF this b(2) assms(1) nt] t show ?thesis
      by (simp add: completionRate_def spec_completionRate_def)
  qed
qed

subsection \<open>The rate of the sample list\<close>

lemma forty_total: "totalCount forty = 40"
  by (simp add: forty_def totalCount_def)

lemma forty_completed: "completedCount forty = 23"
  by code_simp

text \<open>
  In binary64 the quotient \<open>23 / 40\<close> is \<open>5179139571476070 / 2 ^ 53\<close>, a little
  below \<open>0.575\<close>, and its product with 100 rounds to the binary64 just below
  \<open>57.5\<close>.
\<close>

lemma rate_23_40: "Math_round (Number_times (Number_div 23 40) 100) = 57"
  by (simp add: Math_round_def Number_times_def Number_div_def fl_def bit_length.simps
      round_half_even_def Let_def)

text \<open>
  Where the percentage is a whole number or a binary fraction, the computed rate is the
  rounded percentage; a tie that is exact in binary64, such as 12.5, goes up.
\<close>

lemma rate_examples:
  "Math_round (Number_times (Number_div 1 2) 100) = 50"
  "Math_round (Number_times (Number_div 1 3) 100) = 33"
  "Math_round (Number_times (Number_div 2 3) 100) = 67"
  "Math_round (Number_times (Number_div 1 8) 100) = 13"
  "Math_round (Number_times (Number_div 40 40) 100) = 100"
  "Math_round (Number_times (Number_div 0 40) 100) = 0"
  by (simp_all add: Math_round_def Number_times_def Number_div_def fl_def bit_length.simps
      round_half_even_def Let_def)

text \<open>
  C6: the counts add up (\<open>stats_sum\<close>), the rate of an empty list is 0
  (\<open>completionRate_empty\<close>) and the rate is the rounded percentage wherever the
  percentage is no tie (\<open>completionRate_off_ties\<close>). At a tie it need not be: with 23
  of 40 tasks completed the percentage is exactly 57.5, which rounds to 58, and the
  component computes 57.
\<close>

theorem completionRate_forty:
  "totalCount forty = 40 \<and> completedCount forty = 23 \<and> activeCount forty = 17 \<and>
   completionRate forty = 57 \<and> spec_completionRate forty = 58"
  by (simp add: completionRate_def spec_completionRate_def activeCount_def forty_total
      forty_completed rate_23_40)

end
